theory Spec2Isabelle
  imports Main
begin

section \<open>Go values shared by the embedded functions\<close>

text \<open>
  A Go \<^verbatim>\<open>string\<close> is a sequence of bytes: \<^typ>\<open>string\<close>. A run-time panic of the
  source is a value of type \<open>panic\<close>; a function that can panic returns \<open>panic + 'a\<close>.
  A Go \<^verbatim>\<open>error\<close> is \<open>error option\<close>, \<open>None\<close> being \<^verbatim>\<open>nil\<close>: the two errors
  that Evaluate makes itself, \<^verbatim>\<open>EINVAL\<close> of \<^verbatim>\<open>os.Setenv\<close>, the errors of
  \<^verbatim>\<open>http.NewRequest\<close> and \<^verbatim>\<open>client.Do\<close>, and \<open>ErrLibrary\<close> for an error that a
  library outside this repository returns with its message.
\<close>

datatype panic = NilPointerDereference

datatype error =
    ErrWhenEmpty
  | ErrWhenNotBoolean
  | EINVAL
  | ErrNewRequest
  | ErrDo
  | ErrLibrary string

section \<open>Package strings, regexp and os: the library calls of envvar\_helper.go\<close>

text \<open>\<^verbatim>\<open>strings.HasPrefix(s, prefix)\<close>.\<close>

definition HasPrefix :: "string \<Rightarrow> string \<Rightarrow> bool" where
  "HasPrefix s p = (take (length p) s = p)"

text \<open>
  \<^verbatim>\<open>strings.Replace(s, old, new, -1)\<close> for a non-empty \<open>old\<close>: every non-overlapping
  occurrence of \<open>old\<close>, found from the left, is replaced in one pass. Both call sites pass a
  non-empty literal (\<^verbatim>\<open>"ZIPLINEE_"\<close>, \<^verbatim>\<open>"--"\<close>); for an empty \<open>old\<close> the string is
  returned as it is here.
\<close>

function strings_Replace :: "string \<Rightarrow> string \<Rightarrow> string \<Rightarrow> string" where
  "strings_Replace [] old new = []"
| "strings_Replace (c # cs) old new =
     (if old \<noteq> [] \<and> HasPrefix (c # cs) old
      then new @ strings_Replace (drop (length old) (c # cs)) old new
      else c # strings_Replace cs old new)"
  by pat_completeness auto
termination
  by (relation "measure (\<lambda>(s, old, new). length s)") (auto simp: neq_Nil_conv)

text \<open>\<^verbatim>\<open>strings.Trim(s, cutset)\<close>: leading and trailing bytes of \<open>cutset\<close> removed.\<close>

definition strings_Trim :: "string \<Rightarrow> string \<Rightarrow> string" where
  "strings_Trim s cutset =
     rev (dropWhile (\<lambda>c. c \<in> set cutset) (rev (dropWhile (\<lambda>c. c \<in> set cutset) s)))"

text \<open>
  \<^verbatim>\<open>strings.ToLower\<close>. A string of ASCII bytes only is lowered byte by byte
  (\<^verbatim>\<open>'A' <= c && c <= 'Z'\<close> gives \<^verbatim>\<open>c + 'a' - 'A'\<close>). Any other string goes through
  \<^verbatim>\<open>strings.Map(unicode.ToLower, s)\<close>, whose Unicode tables are not part of this
  repository: that path is the parameter \<open>U\<close>.
\<close>

definition isUpperASCII :: "char \<Rightarrow> bool" where
  "isUpperASCII c = (65 \<le> (of_char c :: nat) \<and> (of_char c :: nat) \<le> 90)"

definition toLowerASCII :: "char \<Rightarrow> char" where
  "toLowerASCII c = (if isUpperASCII c then char_of ((of_char c :: nat) + 32) else c)"

definition strings_ToLower :: "(string \<Rightarrow> string) \<Rightarrow> string \<Rightarrow> string" where
  "strings_ToLower U s =
     (if list_all (\<lambda>c. (of_char c :: nat) < 128) s then map toLowerASCII s else U s)"

text \<open>The character class \<^verbatim>\<open>[a-z0-9-]\<close> of the two regular expressions.\<close>

definition isLowerLetter :: "char \<Rightarrow> bool" where
  "isLowerLetter c = (97 \<le> (of_char c :: nat) \<and> (of_char c :: nat) \<le> 122)"

definition isDigit :: "char \<Rightarrow> bool" where
  "isDigit c = (48 \<le> (of_char c :: nat) \<and> (of_char c :: nat) \<le> 57)"

definition isLabelChar :: "char \<Rightarrow> bool" where
  "isLabelChar c = (isLowerLetter c \<or> isDigit c \<or> c = CHR ''-'')"

text \<open>
  \<^verbatim>\<open>regexp.MustCompile(`[^a-z0-9-]+`).ReplaceAllString(value, "-")\<close>: every maximal run
  of bytes outside the class becomes one hyphen. (Each byte of a multi-byte rune is
  \<open>\<ge> 0x80\<close>, outside the class, so runs of runes and runs of bytes coincide.)
\<close>

function replaceInvalidRuns :: "string \<Rightarrow> string" where
  "replaceInvalidRuns [] = []"
| "replaceInvalidRuns (c # cs) =
     (if isLabelChar c then c # replaceInvalidRuns cs
      else CHR ''-'' # replaceInvalidRuns (dropWhile (\<lambda>d. \<not> isLabelChar d) cs))"
  by pat_completeness auto
termination
  by (relation "measure length") (auto simp: less_Suc_eq_le length_dropWhile_le)

text \<open>\<^verbatim>\<open>regexp.MustCompile(`^[0-9-]+`).ReplaceAllString(value, "")\<close>.\<close>

definition stripLeadingDigitsHyphens :: "string \<Rightarrow> string" where
  "stripLeadingDigitsHyphens s = dropWhile (\<lambda>c. isDigit c \<or> c = CHR ''-'') s"

text \<open>The process environment: \<^verbatim>\<open>os.Getenv\<close> gives the empty string for an unset name.\<close>

type_synonym environ = "string \<rightharpoonup> string"

definition os_Getenv :: "environ \<Rightarrow> string \<Rightarrow> string" where
  "os_Getenv env key = (case env key of None \<Rightarrow> [] | Some v \<Rightarrow> v)"

text \<open>
  \<^verbatim>\<open>os.Setenv\<close> (\<^verbatim>\<open>syscall.Setenv\<close> on Unix): \<^verbatim>\<open>EINVAL\<close> for an empty key, a key
  holding \<^verbatim>\<open>=\<close> or a NUL byte, or a value holding a NUL byte.
\<close>

definition os_Setenv :: "environ \<Rightarrow> string \<Rightarrow> string \<Rightarrow> error + environ" where
  "os_Setenv env key v =
     (if key = [] \<or> CHR ''='' \<in> set key \<or> CHR 0x00 \<in> set key \<or> CHR 0x00 \<in> set v
      then Inl EINVAL
      else Inr (env(key \<mapsto> v)))"

text \<open>
  \<^verbatim>\<open>os.Expand(s, mapping)\<close> with its helpers \<^verbatim>\<open>isShellSpecialVar\<close>, \<^verbatim>\<open>isAlphaNum\<close>
  and \<^verbatim>\<open>getShellName\<close>, following the Go standard library: \<^verbatim>\<open>$name\<close> and
  \<^verbatim>\<open>${name}\<close> are replaced by \<open>mapping name\<close>; \<^verbatim>\<open>${}\<close> and an unclosed \<^verbatim>\<open>${\<close>
  are eaten; a \<^verbatim>\<open>$\<close> followed by no name stays.
\<close>

definition isShellSpecialVar :: "char \<Rightarrow> bool" where
  "isShellSpecialVar c = (c \<in> set ''*#$@!?-0123456789'')"

definition isAlphaNum :: "char \<Rightarrow> bool" where
  "isAlphaNum c = (c = CHR ''_'' \<or> isDigit c \<or> isLowerLetter c \<or> isUpperASCII c)"

text \<open>The scan for the closing brace, from index 1 of \<open>s\<close>: \<open>rest\<close> is \<open>s[i:]\<close>.\<close>

fun scanBrace :: "string \<Rightarrow> nat \<Rightarrow> string \<Rightarrow> string \<times> nat" where
  "scanBrace s i [] = ([], 1)"
| "scanBrace s i (c # rest) =
     (if c = CHR ''}''
      then (if i = 1 then ([], 2) else (take (i - 1) (drop 1 s), i + 1))
      else scanBrace s (i + 1) rest)"

definition getShellName :: "string \<Rightarrow> string \<times> nat" where
  "getShellName s =
     (if hd s = CHR ''{'' then
        (if length s > 2 \<and> isShellSpecialVar (s ! 1) \<and> s ! 2 = CHR ''}''
         then (take 1 (drop 1 s), 3)
         else scanBrace s 1 (drop 1 s))
      else if isShellSpecialVar (hd s) then (take 1 s, 1)
      else (takeWhile isAlphaNum s, length (takeWhile isAlphaNum s)))"

function os_Expand :: "string \<Rightarrow> (string \<Rightarrow> string) \<Rightarrow> string" where
  "os_Expand [] mapping = []"
| "os_Expand (c # cs) mapping =
     (if c = CHR ''$'' \<and> cs \<noteq> [] then
        (case getShellName cs of (name, w) \<Rightarrow>
           (if name = [] \<and> w > 0 then []
            else if name = [] then [c]
            else mapping name) @ os_Expand (drop w cs) mapping)
      else c # os_Expand cs mapping)"
  by pat_completeness auto
termination
  by (relation "measure (\<lambda>(s, mapping). length s)") (auto simp: less_Suc_eq_le)

section \<open>envvar\_helper.go\<close>

text \<open>
  The fields of \<^verbatim>\<open>envvarHelper\<close> that the embedded methods read. main.go builds the
  helper with the prefix \<^verbatim>\<open>"ZIPLINEE_"\<close>, the tests with \<^verbatim>\<open>"TESTPREFIX_"\<close>.
\<close>

record envvarHelper =
  prefix :: string
  ciServer :: string

definition getZiplineeEnvvarName :: "envvarHelper \<Rightarrow> string \<Rightarrow> string" where
  "getZiplineeEnvvarName h key = strings_Replace key ''ZIPLINEE_'' (prefix h)"

definition getZiplineeEnv :: "envvarHelper \<Rightarrow> environ \<Rightarrow> string \<Rightarrow> string" where
  "getZiplineeEnv h env key0 =
     (let key = getZiplineeEnvvarName h key0 in
      if HasPrefix key (prefix h) then os_Getenv env key
      else ''${'' @ key @ ''}'')"

definition setZiplineeEnv :: "envvarHelper \<Rightarrow> environ \<Rightarrow> string \<Rightarrow> string \<Rightarrow> error + environ" where
  "setZiplineeEnv h env key0 v =
     (let key = getZiplineeEnvvarName h key0 in os_Setenv env key v)"

subsection \<open>makeDNSLabelSafe\<close>

definition makeDNSLabelSafe :: "(string \<Rightarrow> string) \<Rightarrow> string \<Rightarrow> string" where
  "makeDNSLabelSafe U value0 =
     (let v1 = strings_ToLower U value0;
          v2 = replaceInvalidRuns v1;
          v3 = strings_Replace v2 ''--'' ''-'';
          v4 = strings_Trim v3 ''-'';
          v5 = stripLeadingDigitsHyphens v4;
          v6 = (if length v5 > 63 then take 63 v5 else v5)
      in strings_Trim v6 ''-'')"

text \<open>
  The specification's regular expression \<^verbatim>\<open>^[a-z]([a-z0-9-]{0,61}[a-z0-9])?$\<close> as a predicate: a
  non-empty string of at most 63 bytes of the class \<^verbatim>\<open>[a-z0-9-]\<close> that starts with a
  letter and does not end with a hyphen.
\<close>

definition isDNSLabel :: "string \<Rightarrow> bool" where
  "isDNSLabel s =
     (s \<noteq> [] \<and> isLowerLetter (hd s) \<and> list_all isLabelChar s \<and> last s \<noteq> CHR ''-''
      \<and> length s \<le> 63)"

subsection \<open>OverrideEnvvars\<close>

text \<open>
  A Go map is a reference: the store of maps is a list, a map value is \<open>Some\<close> index into
  it or \<open>None\<close> for the nil map (ranging over a nil map runs no iteration).
  \<^verbatim>\<open>make(map[string]string)\<close> appends a fresh empty map. The inner loop
  \<^verbatim>\<open>for k, v := range envvarMap { envvars[k] = v }\<close> visits every key of
  \<open>envvarMap\<close> once, in no fixed order, and stores its value: whatever the order, the
  target becomes \<open>target ++ envvarMap\<close>.
\<close>

type_synonym mapStore = "(string \<rightharpoonup> string) list"

definition rangeMap :: "mapStore \<Rightarrow> nat option \<Rightarrow> (string \<rightharpoonup> string)" where
  "rangeMap st m = (case m of None \<Rightarrow> Map.empty | Some r \<Rightarrow> st ! r)"

fun overrideLoop :: "mapStore \<Rightarrow> nat \<Rightarrow> nat option list \<Rightarrow> mapStore" where
  "overrideLoop st envvars [] = st"
| "overrideLoop st envvars (envvarMap # rest) =
     overrideLoop (st[envvars := (st ! envvars) ++ rangeMap st envvarMap]) envvars rest"

definition OverrideEnvvars :: "mapStore \<Rightarrow> nat option list \<Rightarrow> mapStore \<times> nat" where
  "OverrideEnvvars st envvarMaps =
     (let envvars = length st;
          st1 = st @ [Map.empty]
      in (overrideLoop st1 envvars envvarMaps, envvars))"

subsection \<open>setZiplineeEventEnvvars\<close>

text \<open>
  The function walks each event by reflection. \<open>Fields\<close> is what
  \<^verbatim>\<open>reflect.TypeOf(e)\<close> and \<^verbatim>\<open>reflect.ValueOf(e)\<close> enumerate: every struct field
  with its name, in declaration order. A field that is not a pointer (as \<^verbatim>\<open>Name\<close> and
  \<^verbatim>\<open>Fired\<close>) or is a nil pointer is skipped; a non-nil pointer leads to a struct whose
  fields are again enumerated with their names. A property of kind \<^verbatim>\<open>reflect.String\<close>
  carries its string; any other property carries the text that \<^verbatim>\<open>json.Marshal\<close>
  gives for it. \<^verbatim>\<open>foundation.ToUpperSnakeCase\<close> belongs to another module and is the
  parameter \<open>ToUpperSnakeCase\<close>.
\<close>

datatype propertyValue = StringKind string | OtherKind string

datatype fieldValue = NotAPointer | NilPointer | PointerTo "(string \<times> propertyValue) list"

record ZiplineeEvent =
  Name :: string
  Fired :: bool
  Fields :: "(string \<times> fieldValue) list"

definition envvarValueOf :: "propertyValue \<Rightarrow> string" where
  "envvarValueOf triggerPropertyValue =
     (case triggerPropertyValue of
        StringKind s \<Rightarrow> s
      | OtherKind jsonValue \<Rightarrow> strings_Trim jsonValue [CHR 0x22])"

text \<open>The loop over \<open>j\<close>: the properties of one payload.\<close>

fun propertyLoop ::
  "envvarHelper \<Rightarrow> (string \<Rightarrow> string) \<Rightarrow> ZiplineeEvent \<Rightarrow> string \<Rightarrow> environ \<Rightarrow>
   (string \<times> propertyValue) list \<Rightarrow> error + environ" where
  "propertyLoop h ToUpperSnakeCase e triggerField env [] = Inr env"
| "propertyLoop h ToUpperSnakeCase e triggerField env ((triggerPropertyField, triggerPropertyValue) # rest) =
     (let envvarName = ''ZIPLINEE_TRIGGER_'' @ ToUpperSnakeCase triggerField @ ''_''
                         @ ToUpperSnakeCase triggerPropertyField;
          envvarValue = envvarValueOf triggerPropertyValue
      in case (if Fired e then setZiplineeEnv h env envvarName envvarValue else Inr env) of
           Inl err \<Rightarrow> Inl err
         | Inr env1 \<Rightarrow>
             (case (if Name e \<noteq> []
                    then setZiplineeEnv h env1
                           (''ZIPLINEE_TRIGGER_'' @ ToUpperSnakeCase (Name e) @ ''_''
                              @ ToUpperSnakeCase triggerPropertyField) envvarValue
                    else Inr env1) of
                Inl err \<Rightarrow> Inl err
              | Inr env2 \<Rightarrow> propertyLoop h ToUpperSnakeCase e triggerField env2 rest))"

text \<open>The loop over \<open>i\<close>: the fields of one event.\<close>

fun fieldLoop ::
  "envvarHelper \<Rightarrow> (string \<Rightarrow> string) \<Rightarrow> ZiplineeEvent \<Rightarrow> environ \<Rightarrow>
   (string \<times> fieldValue) list \<Rightarrow> error + environ" where
  "fieldLoop h ToUpperSnakeCase e env [] = Inr env"
| "fieldLoop h ToUpperSnakeCase e env ((triggerField, triggerValue) # rest) =
     (case triggerValue of
        PointerTo properties \<Rightarrow>
          (case propertyLoop h ToUpperSnakeCase e triggerField env properties of
             Inl err \<Rightarrow> Inl err
           | Inr env1 \<Rightarrow> fieldLoop h ToUpperSnakeCase e env1 rest)
      | _ \<Rightarrow> fieldLoop h ToUpperSnakeCase e env rest)"

fun setZiplineeEventEnvvars ::
  "envvarHelper \<Rightarrow> (string \<Rightarrow> string) \<Rightarrow> environ \<Rightarrow> ZiplineeEvent list \<Rightarrow> error + environ" where
  "setZiplineeEventEnvvars h ToUpperSnakeCase env [] = Inr env"
| "setZiplineeEventEnvvars h ToUpperSnakeCase env (e # events) =
     (case fieldLoop h ToUpperSnakeCase e env (Fields e) of
        Inl err \<Rightarrow> Inl err
      | Inr env1 \<Rightarrow> setZiplineeEventEnvvars h ToUpperSnakeCase env1 events)"

text \<open>
  The specification's words, as a list of assignments in the order of the events, their non-nil
  payloads and the payload's fields: \<^verbatim>\<open><PREFIX>_TRIGGER_<KIND>_<FIELD>\<close> when the event
  fired, then \<^verbatim>\<open><PREFIX>_TRIGGER_<NAME>_<FIELD>\<close> when the event has a name. The
  variable name is the prefix-mapped form of \<^verbatim>\<open>ZIPLINEE_TRIGGER_...\<close>.
\<close>

definition triggerVariable :: "envvarHelper \<Rightarrow> (string \<Rightarrow> string) \<Rightarrow> string \<Rightarrow> string \<Rightarrow> string" where
  "triggerVariable h ToUpperSnakeCase kindOrName field =
     getZiplineeEnvvarName h
       (''ZIPLINEE_TRIGGER_'' @ ToUpperSnakeCase kindOrName @ ''_'' @ ToUpperSnakeCase field)"

definition payloadAssignments ::
  "envvarHelper \<Rightarrow> (string \<Rightarrow> string) \<Rightarrow> ZiplineeEvent \<Rightarrow> string \<Rightarrow>
   (string \<times> propertyValue) list \<Rightarrow> (string \<times> string) list" where
  "payloadAssignments h ToUpperSnakeCase e kind properties =
     concat (map (\<lambda>(field, v).
        (if Fired e then [(triggerVariable h ToUpperSnakeCase kind field, envvarValueOf v)] else [])
        @ (if Name e \<noteq> [] then [(triggerVariable h ToUpperSnakeCase (Name e) field, envvarValueOf v)] else []))
       properties)"

definition eventAssignments ::
  "envvarHelper \<Rightarrow> (string \<Rightarrow> string) \<Rightarrow> ZiplineeEvent \<Rightarrow> (string \<times> string) list" where
  "eventAssignments h ToUpperSnakeCase e =
     concat (map (\<lambda>(kind, payload).
        case payload of
          PointerTo properties \<Rightarrow> payloadAssignments h ToUpperSnakeCase e kind properties
        | _ \<Rightarrow> [])
       (Fields e))"

definition setenvAccepts :: "string \<times> string \<Rightarrow> bool" where
  "setenvAccepts kv =
     (fst kv \<noteq> [] \<and> CHR ''='' \<notin> set (fst kv) \<and> CHR 0x00 \<notin> set (fst kv) \<and> CHR 0x00 \<notin> set (snd kv))"

definition assign :: "environ \<Rightarrow> string \<times> string \<Rightarrow> environ" where
  "assign env kv = env(fst kv \<mapsto> snd kv)"

section \<open>when\_evaluator.go: Evaluate\<close>

text \<open>
  The expression library (govaluate) is not part of this repository: its two calls are
  parameters. \<open>NewEvaluableExpression\<close> parses a string into an expression or fails;
  \<open>expression_Evaluate\<close> returns the pair \<^verbatim>\<open>(interface{}, error)\<close>. Of the dynamic
  result only whether it is a \<^verbatim>\<open>bool\<close> matters to the type assertion
  \<^verbatim>\<open>r.(bool)\<close>. The process environment \<open>env\<close> is read by \<open>getZiplineeEnv\<close>.
\<close>

datatype 'v govalue = GoBool bool | GoOther 'v

definition Evaluate ::
  "envvarHelper \<Rightarrow> environ \<Rightarrow> (string \<Rightarrow> error + 'e) \<Rightarrow> ('e \<Rightarrow> 'p \<Rightarrow> 'v govalue \<times> error option) \<Rightarrow>
   string \<Rightarrow> 'p \<Rightarrow> bool \<times> error option" where
  "Evaluate h env NewEvaluableExpression expression_Evaluate input0 parameters =
     (if input0 = [] then (False, Some ErrWhenEmpty)
      else
        let input = os_Expand input0 (getZiplineeEnv h env) in
        case NewEvaluableExpression input of
          Inl err \<Rightarrow> (False, Some err)
        | Inr expression \<Rightarrow>
            (case expression_Evaluate expression parameters of
               (r, err) \<Rightarrow>
                 (case r of
                    GoBool result \<Rightarrow> (result, err)
                  | GoOther _ \<Rightarrow> (False, Some ErrWhenNotBoolean))))"

section \<open>The data of package contracts that the builder reads and writes\<close>

text \<open>
  The structs come from another module; the fields listed are the ones the embedded
  functions touch. A field of pointer type is an \<open>option\<close>, \<open>None\<close> being nil:
  \<open>ReleaseID\<close> is \<^verbatim>\<open>Release.ID\<close> behind the pointer \<^verbatim>\<open>Release\<close>, \<open>BotID\<close> is
  \<^verbatim>\<open>Bot.ID\<close> behind \<^verbatim>\<open>Bot\<close>. \<^verbatim>\<open>LogStatus\<close> is a string type in Go. Instants
  (\<^verbatim>\<open>time.Time\<close>) are counted in nanoseconds.
\<close>

record BuildLogLine =
  LineNumber :: int
  Timestamp :: int
  StreamType :: string
  Text :: string

record BuildLogStep =
  Step :: string
  LogLines :: "BuildLogLine list"
  ExitCode :: int
  Status :: string

text \<open>
  \<^verbatim>\<open>BuildLog.Steps\<close> is a slice of pointers \<^verbatim>\<open>[]*BuildLogStep\<close>. The steps live in a
  store, a list of steps; a pointer is an index into it. Two equal pointers name the same
  step, and a write through one is seen through the other. A pointer that is not an index
  of the store stands for nil: dereferencing it panics, and \<^verbatim>\<open>json.Marshal\<close> writes
  it as \<^verbatim>\<open>null\<close>.
\<close>

type_synonym stepStore = "BuildLogStep list"

record BuildLog =
  ID :: string
  RepoSource :: string
  RepoOwner :: string
  RepoName :: string
  Steps :: "nat list"

datatype JobType = JobTypeBuild | JobTypeRelease | JobTypeBot | JobTypeOther string

datatype BuildEventType = BuildEventTypeUpdateStatus | BuildEventTypeClean

record CIServerConfig =
  BuilderEventsURL :: string
  PostLogsURL :: string
  CancelJobURL :: string
  JWT :: string
  JWTExpiry :: int

record ZiplineeManifest =
  BuilderType :: string

record BuilderConfig =
  JobType :: JobType
  JobName :: "string option"
  CIServer :: "CIServerConfig option"
  ReleaseID :: "string option"
  BotID :: "string option"
  Manifest :: "ZiplineeManifest option"

section \<open>ci\_builder.go: RunZiplineeBuildJob\<close>

subsection \<open>The JWT expiry timer\<close>

text \<open>
  \<^verbatim>\<open>time.Time\<close> is an instant in nanoseconds, \<^verbatim>\<open>time.Duration\<close> a signed 64-bit count
  of nanoseconds. \<^verbatim>\<open>t.Add(d)\<close> returns a new instant and leaves \<open>t\<close> as it is;
  \<^verbatim>\<open>t.Sub(u)\<close> saturates at the least and the greatest Duration.
\<close>

definition Minute :: int where
  "Minute = 60 * 1000000000"

definition minDuration :: int where
  "minDuration = - (2 ^ 63)"

definition maxDuration :: int where
  "maxDuration = 2 ^ 63 - 1"

definition time_Add :: "int \<Rightarrow> int \<Rightarrow> int" where
  "time_Add t d = t + d"

definition time_Sub :: "int \<Rightarrow> int \<Rightarrow> int" where
  "time_Sub t u = max minDuration (min maxDuration (t - u))"

text \<open>
  The goroutine's first three statements; \<open>now\<close> is the value of
  \<^verbatim>\<open>time.Now().UTC()\<close> and the result is the Duration handed to \<^verbatim>\<open>time.NewTimer\<close>.
  The second statement is an expression statement: its value is dropped.
\<close>

definition expiryDuration :: "BuilderConfig \<Rightarrow> int \<Rightarrow> panic + int" where
  "expiryDuration builderConfig now =
     (case CIServer builderConfig of
        None \<Rightarrow> Inl NilPointerDereference
      | Some ci \<Rightarrow>
          (let expiryTime = JWTExpiry ci;
               _ = time_Add expiryTime (-15 * Minute)
           in Inr (time_Sub expiryTime now)))"

subsection \<open>The guard of CreateDockerClient\<close>

text \<open>
  \<^verbatim>\<open>builderConfig.Manifest != nil || builderConfig.Manifest.Builder.BuilderType != manifest.BuilderTypeKubernetes\<close>:
  the right operand is evaluated only when the left one is false, and dereferences
  \<^verbatim>\<open>Manifest\<close>. Of the manifest only \<^verbatim>\<open>Builder.BuilderType\<close> is read. The constant
  \<^verbatim>\<open>manifest.BuilderTypeKubernetes\<close> belongs to another module and is a parameter.
\<close>

definition createDockerClientGuard :: "string \<Rightarrow> BuilderConfig \<Rightarrow> panic + bool" where
  "createDockerClientGuard BuilderTypeKubernetes builderConfig =
     (if Manifest builderConfig \<noteq> None then Inr True
      else (case Manifest builderConfig of
              None \<Rightarrow> Inl NilPointerDereference
            | Some m \<Rightarrow> Inr (BuilderType m \<noteq> BuilderTypeKubernetes)))"

section \<open>end\_of\_life\_helper.go\<close>

text \<open>
  What the helper does to the outside is kept in a \<open>world\<close>: the store of steps, the
  HTTP exchanges performed so far (one entry for each \<^verbatim>\<open>client.Do\<close>, in order), and
  how often the clock was read.

  What the outside decides is a parameter \<open>X\<close>: whether the n-th exchange of the run
  returns an error (\<open>clientDo\<close>), whether \<^verbatim>\<open>http.NewRequest\<close> accepts a URL, the
  n-th reading of \<^verbatim>\<open>time.Now().UTC()\<close>, and the values of package contracts that are
  not under src/ (\<^verbatim>\<open>LogStatusSucceeded\<close>, \<^verbatim>\<open>LogStatusFailed\<close>, \<^verbatim>\<open>ToStatus\<close>).
  \<^verbatim>\<open>json.Marshal\<close> does not fail on these structs.
\<close>

record marshalledLog =
  LogID :: string
  LogRepoSource :: string
  LogRepoOwner :: string
  LogRepoName :: string
  LogSteps :: "BuildLogStep option list"

datatype logBody =
    BuildLogBody marshalledLog
  | ReleaseLogBody string marshalledLog
  | BotLogBody string marshalledLog

record eventBody =
  EventType :: BuildEventType
  EventJobType :: JobType
  EventJobName :: string
  EventPodName :: string
  EventStatus :: string

datatype request =
    PostLogs string logBody
  | PostEvent string eventBody
  | DeleteCancelJob string

record world =
  heap :: stepStore
  requests :: "request list"
  clockReads :: nat

record externals =
  clientDo :: "nat \<Rightarrow> bool"
  NewRequestOK :: "string \<Rightarrow> bool"
  Now :: "nat \<Rightarrow> int"
  LogStatusSucceeded :: string
  LogStatusFailed :: string
  ToStatus :: "string \<Rightarrow> string"

record endOfLifeHelper =
  runAsJob :: bool
  config :: BuilderConfig
  podName :: string

datatype exit = OsExit int | LogFatalExit

fun bodySteps :: "logBody \<Rightarrow> BuildLogStep option list" where
  "bodySteps (BuildLogBody l) = LogSteps l"
| "bodySteps (ReleaseLogBody releaseID l) = LogSteps l"
| "bodySteps (BotLogBody botID l) = LogSteps l"

definition marshal :: "stepStore \<Rightarrow> BuildLog \<Rightarrow> marshalledLog" where
  "marshal h buildLog =
     \<lparr>LogID = ID buildLog, LogRepoSource = RepoSource buildLog, LogRepoOwner = RepoOwner buildLog,
      LogRepoName = RepoName buildLog,
      LogSteps = map (\<lambda>p. if p < length h then Some (h ! p) else None) (Steps buildLog)\<rparr>"

text \<open>The body that SendBuildJobLogEventCore marshals: its three branches on the job type.\<close>

definition logBodyFor :: "BuilderConfig \<Rightarrow> stepStore \<Rightarrow> BuildLog \<Rightarrow> panic + logBody" where
  "logBodyFor cfg h buildLog =
     (if JobType cfg = JobTypeRelease then
        (case ReleaseID cfg of
           None \<Rightarrow> Inl NilPointerDereference
         | Some releaseID \<Rightarrow> Inr (ReleaseLogBody releaseID (marshal h buildLog)))
      else if JobType cfg = JobTypeBot then
        (case BotID cfg of
           None \<Rightarrow> Inl NilPointerDereference
         | Some botID \<Rightarrow> Inr (BotLogBody botID (marshal h buildLog)))
      else Inr (BuildLogBody (marshal h buildLog)))"

definition SendBuildJobLogEventCore ::
  "externals \<Rightarrow> endOfLifeHelper \<Rightarrow> world \<Rightarrow> BuildLog \<Rightarrow> panic + (world \<times> error option)" where
  "SendBuildJobLogEventCore X elh w buildLog =
     (case CIServer (config elh) of
        None \<Rightarrow> Inl NilPointerDereference
      | Some ci \<Rightarrow>
     (case JobName (config elh) of
        None \<Rightarrow> Inl NilPointerDereference
      | Some jobName \<Rightarrow>
          if PostLogsURL ci \<noteq> [] \<and> JWT ci \<noteq> [] \<and> jobName \<noteq> [] then
            (case logBodyFor (config elh) (heap w) buildLog of
               Inl p \<Rightarrow> Inl p
             | Inr data \<Rightarrow>
                 if NewRequestOK X (PostLogsURL ci) then
                   (let w1 = w\<lparr>requests := requests w @ [PostLogs (PostLogsURL ci) data]\<rparr>
                    in if clientDo X (length (requests w)) then Inr (w1, None)
                       else Inr (w1, Some ErrDo))
                 else Inr (w, Some ErrNewRequest))
          else Inr (w, None)))"

definition truncatedLogsText :: string where
  "truncatedLogsText =
     ''Truncated logs for reducing total log size; to prevent this use less verbose logging''"

text \<open>
  The loop of SendBuildJobLogEvent over \<^verbatim>\<open>buildLog.Steps\<close>. \<^verbatim>\<open>slimBuildLogStep := s\<close>
  copies the pointer, so the assignment to \<^verbatim>\<open>slimBuildLogStep.LogLines\<close> writes the
  step that \<open>s\<close> points to.
\<close>

fun slimLoop :: "externals \<Rightarrow> stepStore \<Rightarrow> nat list \<Rightarrow> nat list \<Rightarrow> panic + (stepStore \<times> nat list)" where
  "slimLoop X h slimSteps [] = Inr (h, slimSteps)"
| "slimLoop X h slimSteps (s # rest) =
     (if s < length h then
        (let slimBuildLogStep = s;
             h1 = (if Status (h ! s) = LogStatusSucceeded X then
                     (if length (LogLines (h ! s)) > 0 then
                        h[slimBuildLogStep := (h ! slimBuildLogStep)
                           \<lparr>LogLines :=
                              [\<lparr>LineNumber = LineNumber (LogLines (h ! s) ! 0),
                                Timestamp = Timestamp (LogLines (h ! s) ! 0),
                                StreamType = ''stdout'',
                                Text = truncatedLogsText\<rparr>]\<rparr>]
                      else h)
                   else h)
         in slimLoop X h1 (slimSteps @ [slimBuildLogStep]) rest)
      else Inl NilPointerDereference)"

definition SendBuildJobLogEvent ::
  "externals \<Rightarrow> endOfLifeHelper \<Rightarrow> world \<Rightarrow> BuildLog \<Rightarrow> panic + (world \<times> error option)" where
  "SendBuildJobLogEvent X elh w buildLog =
     (case SendBuildJobLogEventCore X elh w buildLog of
        Inl p \<Rightarrow> Inl p
      | Inr (w1, None) \<Rightarrow> Inr (w1, None)
      | Inr (w1, Some err) \<Rightarrow>
          (case slimLoop X (heap w1) [] (Steps buildLog) of
             Inl p \<Rightarrow> Inl p
           | Inr (h2, slimSteps) \<Rightarrow>
               SendBuildJobLogEventCore X elh (w1\<lparr>heap := h2\<rparr>) (buildLog\<lparr>Steps := slimSteps\<rparr>)))"

definition sendBuilderEvent ::
  "externals \<Rightarrow> endOfLifeHelper \<Rightarrow> world \<Rightarrow> string \<Rightarrow> BuildEventType \<Rightarrow> panic + (world \<times> error option)" where
  "sendBuilderEvent X elh w buildStatus buildEventType =
     (case CIServer (config elh) of
        None \<Rightarrow> Inl NilPointerDereference
      | Some ci \<Rightarrow>
     (case JobName (config elh) of
        None \<Rightarrow> Inl NilPointerDereference
      | Some jobName \<Rightarrow>
          if BuilderEventsURL ci \<noteq> [] \<and> JWT ci \<noteq> [] \<and> jobName \<noteq> [] then
            (let ciBuilderEvent =
                   \<lparr>EventType = buildEventType, EventJobType = JobType (config elh),
                    EventJobName = jobName, EventPodName = podName elh,
                    EventStatus = ToStatus X buildStatus\<rparr>
             in if NewRequestOK X (BuilderEventsURL ci) then
                  (let w1 = w\<lparr>requests := requests w @ [PostEvent (BuilderEventsURL ci) ciBuilderEvent]\<rparr>
                   in if clientDo X (length (requests w)) then Inr (w1, None)
                      else Inr (w1, Some ErrDo))
                else Inr (w, Some ErrNewRequest))
          else Inr (w, None)))"

definition SendBuildFinishedEvent ::
  "externals \<Rightarrow> endOfLifeHelper \<Rightarrow> world \<Rightarrow> string \<Rightarrow> panic + (world \<times> error option)" where
  "SendBuildFinishedEvent X elh w buildStatus =
     sendBuilderEvent X elh w buildStatus BuildEventTypeUpdateStatus"

definition SendBuildCleanEvent ::
  "externals \<Rightarrow> endOfLifeHelper \<Rightarrow> world \<Rightarrow> string \<Rightarrow> panic + (world \<times> error option)" where
  "SendBuildCleanEvent X elh w buildStatus =
     sendBuilderEvent X elh w buildStatus BuildEventTypeClean"

text \<open>
  HandleFatal. \<open>err\<close> is the Go \<^verbatim>\<open>error\<close> argument, \<open>Some\<close> of its \<^verbatim>\<open>Error()\<close> text or
  \<open>None\<close> for nil. \<^verbatim>\<open>&fatalStep\<close> is a new step in the store. The errors of the three
  sends are dropped (\<^verbatim>\<open>_ =\<close>); a panic inside one of them ends the function.
  \<^verbatim>\<open>log.Fatal()\<close> ends the process after writing the message.
\<close>

definition HandleFatal ::
  "externals \<Rightarrow> endOfLifeHelper \<Rightarrow> world \<Rightarrow> BuildLog \<Rightarrow> string option \<Rightarrow> string \<Rightarrow> panic + (world \<times> exit)" where
  "HandleFatal X elh w0 buildLog0 err message =
     (let fatalStep0 = \<lparr>Step = ''init'', LogLines = [], ExitCode = -1, Status = ''FAILED''\<rparr>;
          lineNumber0 = 1;
          (fatalStep1, lineNumber1, w1) =
            (case err of
               Some errText \<Rightarrow>
                 (fatalStep0\<lparr>LogLines := LogLines fatalStep0 @
                     [\<lparr>LineNumber = lineNumber0, Timestamp = Now X (clockReads w0),
                       StreamType = ''stderr'', Text = errText\<rparr>]\<rparr>,
                  lineNumber0 + 1,
                  w0\<lparr>clockReads := clockReads w0 + 1\<rparr>)
             | None \<Rightarrow> (fatalStep0, lineNumber0, w0));
          (fatalStep2, w2) =
            (if message \<noteq> [] then
               (fatalStep1\<lparr>LogLines := LogLines fatalStep1 @
                   [\<lparr>LineNumber = lineNumber1, Timestamp = Now X (clockReads w1),
                     StreamType = ''stderr'', Text = message\<rparr>]\<rparr>,
                w1\<lparr>clockReads := clockReads w1 + 1\<rparr>)
             else (fatalStep1, w1));
          fatalStepPointer = length (heap w2);
          w3 = w2\<lparr>heap := heap w2 @ [fatalStep2]\<rparr>;
          buildLog = buildLog0\<lparr>Steps := Steps buildLog0 @ [fatalStepPointer]\<rparr>
      in case SendBuildFinishedEvent X elh w3 (LogStatusFailed X) of
           Inl p \<Rightarrow> Inl p
         | Inr (w4, _) \<Rightarrow>
        (case SendBuildJobLogEvent X elh w4 buildLog of
           Inl p \<Rightarrow> Inl p
         | Inr (w5, _) \<Rightarrow>
        (case SendBuildCleanEvent X elh w5 (LogStatusFailed X) of
           Inl p \<Rightarrow> Inl p
         | Inr (w6, _) \<Rightarrow>
             if runAsJob elh then Inr (w6, OsExit 0) else Inr (w6, LogFatalExit))))"

text \<open>
  The specification's words for one step of the slim log: a Succeeded step with at least one line
  keeps only the marker line, which carries the line number and the timestamp of the
  step's first line; any other step is as it was.
\<close>

definition slimOf :: "externals \<Rightarrow> BuildLogStep \<Rightarrow> BuildLogStep" where
  "slimOf X s =
     (if Status s = LogStatusSucceeded X \<and> LogLines s \<noteq> []
      then s\<lparr>LogLines := [\<lparr>LineNumber = LineNumber (hd (LogLines s)),
                           Timestamp = Timestamp (hd (LogLines s)),
                           StreamType = ''stdout'',
                           Text = truncatedLogsText\<rparr>]\<rparr>
      else s)"

text \<open>
  The specification's words for the lines of the synthetic step of HandleFatal: the error text
  when there is an error, then the message when it is not empty, as stderr lines numbered
  from 1; \<open>t\<close> is the number of clock readings before the call.
\<close>

definition initStepLines :: "externals \<Rightarrow> nat \<Rightarrow> string option \<Rightarrow> string \<Rightarrow> BuildLogLine list" where
  "initStepLines X t err message =
     (case err of
        None \<Rightarrow> []
      | Some errText \<Rightarrow>
          [\<lparr>LineNumber = 1, Timestamp = Now X t, StreamType = ''stderr'', Text = errText\<rparr>])
     @ (if message = [] then []
        else [\<lparr>LineNumber = (case err of None \<Rightarrow> 1 | Some _ \<Rightarrow> 2),
               Timestamp = Now X (case err of None \<Rightarrow> t | Some _ \<Rightarrow> t + 1),
               StreamType = ''stderr'', Text = message\<rparr>])"

text \<open>
  The specification's words for what one lifecycle event puts on the wire: one POST to the
  events URL that carries the event type, the job type, the job name, the pod name and the
  status; nothing when the URL, the token or the job name is empty or the request cannot
  be built.
\<close>

definition lifecyclePost ::
  "externals \<Rightarrow> endOfLifeHelper \<Rightarrow> CIServerConfig \<Rightarrow> string \<Rightarrow> string \<Rightarrow> BuildEventType \<Rightarrow> request list" where
  "lifecyclePost X elh ci jobName buildStatus buildEventType =
     (if BuilderEventsURL ci \<noteq> [] \<and> JWT ci \<noteq> [] \<and> jobName \<noteq> []
         \<and> NewRequestOK X (BuilderEventsURL ci)
      then [PostEvent (BuilderEventsURL ci)
              \<lparr>EventType = buildEventType, EventJobType = JobType (config elh),
               EventJobName = jobName, EventPodName = podName elh,
               EventStatus = ToStatus X buildStatus\<rparr>]
      else [])"

section \<open>Properties\<close>

lemma strings_Replace_same_aux: "new = old \<Longrightarrow> strings_Replace s old new = s"
proof (induction s old new rule: strings_Replace.induct)
  case (1 old new)
  show ?case by simp
next
  case (2 c cs old new)
  show ?case
  proof (cases "old \<noteq> [] \<and> HasPrefix (c # cs) old")
    case True
    then have "old @ drop (length old) (c # cs) = c # cs"
      unfolding HasPrefix_def by (metis append_take_drop_id)
    with True 2 show ?thesis by simp
  next
    case False
    with 2 show ?thesis by auto
  qed
qed

lemma strings_Replace_same: "strings_Replace s old old = s"
  by (rule strings_Replace_same_aux) simp

subsection \<open>OverrideEnvvars\<close>

lemma overrideLoop_length: "length (overrideLoop st r ms) = length st"
  by (induction ms arbitrary: st) simp_all

lemma overrideLoop_other: "i \<noteq> r \<Longrightarrow> overrideLoop st r ms ! i = st ! i"
  by (induction ms arbitrary: st) simp_all

lemma rangeMap_update_other:
  "m \<noteq> Some r \<Longrightarrow> rangeMap (st[r := x]) m = rangeMap st m"
  by (cases m) (simp_all add: rangeMap_def)

lemma overrideLoop_target:
  "r < length st \<Longrightarrow> Some r \<notin> set ms \<Longrightarrow>
   overrideLoop st r ms ! r = foldl (++) (st ! r) (map (rangeMap st) ms)"
proof (induction ms arbitrary: st)
  case Nil
  show ?case by simp
next
  case (Cons m ms)
  let ?st = "st[r := (st ! r) ++ rangeMap st m]"
  from Cons.prems have neq: "m \<noteq> Some r" and rest: "Some r \<notin> set ms" by auto
  have same: "map (rangeMap ?st) ms = map (rangeMap st) ms"
    using rest by (intro map_cong refl rangeMap_update_other) auto
  have "overrideLoop ?st r ms ! r = foldl (++) (?st ! r) (map (rangeMap ?st) ms)"
    using Cons.prems rest by (intro Cons.IH) simp_all
  then show ?case using Cons.prems(1) by (simp add: same)
qed

text \<open>
  C8. OverrideEnvvars(a, b) returns a freshly made map in which every key of \<open>b\<close> has
  \<open>b\<close>'s value and every key of \<open>a\<close> that \<open>b\<close> lacks has \<open>a\<close>'s value (the rightmost
  map wins); the maps \<open>a\<close> and \<open>b\<close>, and every other map already in the store, are left
  as they were.
\<close>

theorem OverrideEnvvars_right_wins:
  assumes "a < length st" and "b < length st"
    and "OverrideEnvvars st [Some a, Some b] = (st', r)"
  shows "(\<forall>k \<in> dom (st ! b). (st' ! r) k = (st ! b) k)
       \<and> (\<forall>k \<in> dom (st ! a) - dom (st ! b). (st' ! r) k = (st ! a) k)
       \<and> dom (st' ! r) = dom (st ! a) \<union> dom (st ! b)
       \<and> st' ! a = st ! a \<and> st' ! b = st ! b
       \<and> take (length st) st' = st \<and> r = length st"
proof -
  let ?st1 = "st @ [Map.empty]"
  from assms(3) have "(overrideLoop ?st1 (length st) [Some a, Some b], length st) = (st', r)"
    unfolding OverrideEnvvars_def Let_def .
  then have r: "r = length st" and st': "st' = overrideLoop ?st1 r [Some a, Some b]"
    by (auto elim!: Pair_inject simp del: overrideLoop.simps)
  have fresh: "Some r \<notin> set [Some a, Some b]"
    using assms(1,2) r by auto
  have "st' ! r = foldl (++) (?st1 ! r) (map (rangeMap ?st1) [Some a, Some b])"
    unfolding st' using r fresh by (intro overrideLoop_target) simp_all
  then have res: "st' ! r = (st ! a) ++ (st ! b)"
    using assms(1,2) r by (simp add: rangeMap_def nth_append)
  have keep: "st' ! i = st ! i" if "i < length st" for i
    using that r unfolding st' by (subst overrideLoop_other) (simp_all add: nth_append)
  have len: "length st' = Suc (length st)"
    unfolding st' by (simp add: overrideLoop_length)
  have tk: "take (length st) st' = st"
    by (rule nth_equalityI) (simp_all add: len keep)
  have 1: "\<forall>k \<in> dom (st ! b). (st' ! r) k = (st ! b) k"
    by (auto simp: res map_add_def)
  have 2: "\<forall>k \<in> dom (st ! a) - dom (st ! b). (st' ! r) k = (st ! a) k"
    by (auto simp: res map_add_def split: option.splits)
  have 3: "dom (st' ! r) = dom (st ! a) \<union> dom (st ! b)"
    by (auto simp: res)
  from 1 2 3 keep[OF assms(1)] keep[OF assms(2)] tk r show ?thesis by blast
qed

theorem OverrideEnvvars_right_wins_witness:
  "(0::nat) < length [[''ENVVAR1'' \<mapsto> ''value1'', ''ENVVAR3'' \<mapsto> ''value3''], [''ENVVAR1'' \<mapsto> ''value2'']]
   \<and> (fst (OverrideEnvvars [[''ENVVAR1'' \<mapsto> ''value1'', ''ENVVAR3'' \<mapsto> ''value3''], [''ENVVAR1'' \<mapsto> ''value2'']] [Some 0, Some 1])
        ! snd (OverrideEnvvars [[''ENVVAR1'' \<mapsto> ''value1'', ''ENVVAR3'' \<mapsto> ''value3''], [''ENVVAR1'' \<mapsto> ''value2'']] [Some 0, Some 1]))
       ''ENVVAR1'' = Some ''value2''
   \<and> (fst (OverrideEnvvars [[''ENVVAR1'' \<mapsto> ''value1'', ''ENVVAR3'' \<mapsto> ''value3''], [''ENVVAR1'' \<mapsto> ''value2'']] [Some 0, Some 1])
        ! snd (OverrideEnvvars [[''ENVVAR1'' \<mapsto> ''value1'', ''ENVVAR3'' \<mapsto> ''value3''], [''ENVVAR1'' \<mapsto> ''value2'']] [Some 0, Some 1]))
       ''ENVVAR3'' = Some ''value3''
   \<and> snd (OverrideEnvvars [[''ENVVAR1'' \<mapsto> ''value1'', ''ENVVAR3'' \<mapsto> ''value3''], [''ENVVAR1'' \<mapsto> ''value2'']] [Some 0, Some 1]) = 2"
proof -
  let ?st = "[[''ENVVAR1'' \<mapsto> ''value1'', ''ENVVAR3'' \<mapsto> ''value3''], [''ENVVAR1'' \<mapsto> ''value2'']]"
  let ?res = "OverrideEnvvars ?st [Some 0, Some 1]"
  have a: "0 < length ?st" and b: "1 < length ?st" by simp_all
  have eq: "?res = (fst ?res, snd ?res)" by simp
  from OverrideEnvvars_right_wins[OF a b eq]
  have 1: "\<forall>k \<in> dom (?st ! 1). (fst ?res ! snd ?res) k = (?st ! 1) k"
    and 2: "\<forall>k \<in> dom (?st ! 0) - dom (?st ! 1). (fst ?res ! snd ?res) k = (?st ! 0) k"
    and 3: "snd ?res = length ?st"
    by blast+
  from 1 have "(fst ?res ! snd ?res) ''ENVVAR1'' = (?st ! 1) ''ENVVAR1''" by simp
  moreover from 2 have "(fst ?res ! snd ?res) ''ENVVAR3'' = (?st ! 0) ''ENVVAR3''" by simp
  ultimately show ?thesis using 3 by simp
qed

subsection \<open>The JWT expiry timer\<close>

lemma expiryDuration_ignores_Add:
  "CIServer builderConfig = Some ci \<Longrightarrow>
   expiryDuration builderConfig now = Inr (time_Sub (JWTExpiry ci) now)"
  by (simp add: expiryDuration_def)

text \<open>
  C2. With a JWT that expires one hour from now the timer is armed with the full hour,
  not with the 45 minutes that "15 minutes before the JWT expires" asks for: the instant
  returned by \<^verbatim>\<open>expiryTime.Add\<close> is dropped.
\<close>

theorem expiryDuration_not_15_minutes_early:
  "expiryDuration (builderConfig\<lparr>CIServer := Some (ci\<lparr>JWTExpiry := 60 * Minute\<rparr>)\<rparr>) 0
     = Inr (60 * Minute)
   \<and> time_Sub (time_Add (60 * Minute) (-15 * Minute)) 0 = 45 * Minute"
  by (simp add: expiryDuration_def time_Sub_def time_Add_def Minute_def minDuration_def maxDuration_def)

subsection \<open>The guard of CreateDockerClient\<close>

lemma createDockerClientGuard_cases:
  "createDockerClientGuard K builderConfig =
     (case Manifest builderConfig of None \<Rightarrow> Inl NilPointerDereference | Some m \<Rightarrow> Inr True)"
  by (simp add: createDockerClientGuard_def split: option.splits)

text \<open>
  C4. For a manifest whose builder type is Kubernetes the guard is true, so the docker
  client is created; for a nil manifest the guard dereferences the nil pointer.
\<close>

theorem createDockerClientGuard_kubernetes_and_nil:
  "createDockerClientGuard K (builderConfig\<lparr>Manifest := Some \<lparr>BuilderType = K\<rparr>\<rparr>) = Inr True
   \<and> createDockerClientGuard K (builderConfig\<lparr>Manifest := None\<rparr>) = Inl NilPointerDereference"
  by (simp add: createDockerClientGuard_def)

subsection \<open>makeDNSLabelSafe\<close>

lemma replaceInvalidRuns_class: "list_all isLabelChar (replaceInvalidRuns s)"
  by (induction s rule: replaceInvalidRuns.induct) (auto simp: isLabelChar_def)

lemma strings_Replace_class:
  "list_all P s \<Longrightarrow> list_all P new \<Longrightarrow> list_all P (strings_Replace s old new)"
proof (induction s old new rule: strings_Replace.induct)
  case (1 old new)
  show ?case by simp
next
  case (2 c cs old new)
  show ?case
  proof (cases "old \<noteq> [] \<and> HasPrefix (c # cs) old")
    case True
    have "list_all P (drop (length old) (c # cs))"
      using "2.prems"(1) by (metis append_take_drop_id list_all_append)
    with True 2 show ?thesis by simp
  next
    case False
    with 2 show ?thesis by auto
  qed
qed

lemma strings_Trim_class: "list_all P s \<Longrightarrow> list_all P (strings_Trim s cutset)"
  by (auto simp: strings_Trim_def list_all_iff dest!: set_dropWhileD)

lemma last_dropWhile: "dropWhile P xs \<noteq> [] \<Longrightarrow> last (dropWhile P xs) = last xs"
  by (induction xs) (auto split: if_splits)

lemma strings_Trim_ends:
  assumes "strings_Trim s cutset \<noteq> []"
  shows "hd (strings_Trim s cutset) \<notin> set cutset \<and> last (strings_Trim s cutset) \<notin> set cutset"
proof -
  let ?P = "\<lambda>c. c \<in> set cutset"
  let ?a = "dropWhile ?P s"
  let ?b = "dropWhile ?P (rev ?a)"
  from assms have b: "?b \<noteq> []" by (simp add: strings_Trim_def)
  have a: "?a \<noteq> []"
  proof
    assume "?a = []"
    then have "?b = []" by (simp only: rev.simps dropWhile.simps)
    with b show False by simp
  qed
  have hb: "\<not> ?P (hd ?b)" using b by (rule hd_dropWhile)
  have ha: "\<not> ?P (hd ?a)" using a by (rule hd_dropWhile)
  have "last (rev ?b) = hd ?b" using b by (simp add: last_rev)
  moreover have "hd (rev ?b) = hd ?a"
    using a b by (simp add: hd_rev last_dropWhile last_rev)
  ultimately show ?thesis using ha hb by (simp add: strings_Trim_def)
qed

lemma strings_Trim_length: "length (strings_Trim s cutset) \<le> length s"
  unfolding strings_Trim_def
  by (metis length_dropWhile_le length_rev order_trans)

lemma strings_Trim_keeps_head:
  assumes "s \<noteq> []" and "hd s \<notin> set cutset"
  shows "strings_Trim s cutset \<noteq> [] \<and> hd (strings_Trim s cutset) = hd s"
proof -
  let ?P = "\<lambda>c. c \<in> set cutset"
  obtain x xs where s: "s = x # xs" using assms(1) by (cases s) auto
  have x: "\<not> ?P x" using assms(2) s by simp
  let ?ys = "dropWhile ?P (rev xs @ [x])"
  have trim: "strings_Trim (x # xs) cutset = rev ?ys"
    using x by (simp add: strings_Trim_def)
  have ne: "?ys \<noteq> []"
    using x by (auto simp: dropWhile_eq_Nil_conv)
  have "last ?ys = last (rev xs @ [x])"
    using ne by (rule last_dropWhile)
  then have hdx: "hd (rev ?ys) = x"
    using ne by (simp add: hd_rev)
  from ne have ne': "rev ?ys \<noteq> []"
    by (metis rev_is_Nil_conv)
  show ?thesis
    unfolding s trim list.sel(1) using ne' hdx by (intro conjI)
qed

lemma makeDNSLabelSafe_shape:
  "makeDNSLabelSafe U s = [] \<or> isDNSLabel (makeDNSLabelSafe U s)"
proof -
  let ?v2 = "replaceInvalidRuns (strings_ToLower U s)"
  let ?v3 = "strings_Replace ?v2 ''--'' ''-''"
  let ?v4 = "strings_Trim ?v3 ''-''"
  let ?v5 = "stripLeadingDigitsHyphens ?v4"
  let ?v6 = "if length ?v5 > 63 then take 63 ?v5 else ?v5"
  have res: "makeDNSLabelSafe U s = strings_Trim ?v6 ''-''"
    by (simp add: makeDNSLabelSafe_def Let_def)
  have c3: "list_all isLabelChar ?v3"
    by (intro strings_Replace_class replaceInvalidRuns_class) (simp add: isLabelChar_def)
  then have c4: "list_all isLabelChar ?v4" by (rule strings_Trim_class)
  then have c5: "list_all isLabelChar ?v5"
    by (auto simp: stripLeadingDigitsHyphens_def list_all_iff dest!: set_dropWhileD)
  then have c6: "list_all isLabelChar ?v6"
    by (auto simp: list_all_iff dest!: in_set_takeD)
  have l6: "length ?v6 \<le> 63" by simp
  show ?thesis
  proof (cases "?v5 = []")
    case True
    then have "?v6 = []" by simp
    then have "strings_Trim ?v6 ''-'' = []" by (simp add: strings_Trim_def)
    with res show ?thesis by simp
  next
    case False
    have "\<not> (isDigit (hd ?v5) \<or> hd ?v5 = CHR ''-'')"
      using False unfolding stripLeadingDigitsHyphens_def by (rule hd_dropWhile)
    moreover have "isLabelChar (hd ?v5)"
      using False c5 by (cases ?v5) simp_all
    ultimately have letter5: "isLowerLetter (hd ?v5)"
      by (simp add: isLabelChar_def)
    have ne6: "?v6 \<noteq> []" using False by auto
    have hd6: "hd ?v6 = hd ?v5" using False by (cases ?v5) simp_all
    have nothyphen: "hd ?v6 \<notin> set ''-''"
      using letter5 hd6 by (auto simp: isLowerLetter_def)
    from strings_Trim_keeps_head[OF ne6 nothyphen]
    have ne: "strings_Trim ?v6 ''-'' \<noteq> []" and hdr: "hd (strings_Trim ?v6 ''-'') = hd ?v6"
      by simp_all
    have "last (strings_Trim ?v6 ''-'') \<notin> set ''-''"
      using strings_Trim_ends[OF ne] by simp
    then have lastr: "last (strings_Trim ?v6 ''-'') \<noteq> CHR ''-''" by simp
    have classr: "list_all isLabelChar (strings_Trim ?v6 ''-'')"
      using c6 by (rule strings_Trim_class)
    have lenr: "length (strings_Trim ?v6 ''-'') \<le> 63"
      using strings_Trim_length[of ?v6 "''-''"] l6 by (rule order_trans)
    have "isDNSLabel (strings_Trim ?v6 ''-'')"
      unfolding isDNSLabel_def using ne hdr hd6 letter5 classr lastr lenr by simp
    with res show ?thesis by simp
  qed
qed

lemma isLabelChar_ascii_lower:
  "isLabelChar c \<Longrightarrow> (of_char c :: nat) < 128 \<and> toLowerASCII c = c"
  by (auto simp: isLabelChar_def isLowerLetter_def isDigit_def toLowerASCII_def isUpperASCII_def)

lemma strings_ToLower_class: "list_all isLabelChar s \<Longrightarrow> strings_ToLower U s = s"
proof -
  assume a: "list_all isLabelChar s"
  then have "list_all (\<lambda>c. (of_char c :: nat) < 128) s"
    by (auto simp: list_all_iff dest: isLabelChar_ascii_lower)
  moreover have "map toLowerASCII s = s"
    using a by (induction s) (simp_all add: isLabelChar_ascii_lower)
  ultimately show ?thesis by (simp add: strings_ToLower_def)
qed

lemma replaceInvalidRuns_id: "list_all isLabelChar s \<Longrightarrow> replaceInvalidRuns s = s"
  by (induction s) simp_all

lemma strings_Replace_absent:
  "\<forall>i. \<not> HasPrefix (drop i s) old \<Longrightarrow> strings_Replace s old new = s"
proof (induction s old new rule: strings_Replace.induct)
  case (1 old new)
  show ?case by simp
next
  case (2 c cs old new)
  from "2.prems" have here: "\<not> HasPrefix (c # cs) old"
    by (metis drop0)
  have rest: "\<forall>i. \<not> HasPrefix (drop i cs) old"
  proof
    fix i
    from "2.prems" have "\<not> HasPrefix (drop (Suc i) (c # cs)) old" by blast
    then show "\<not> HasPrefix (drop i cs) old" by simp
  qed
  from here "2.IH"(2) rest show ?case by simp
qed

lemma strings_Replace_hyphens_length:
  "length (strings_Replace s ''--'' ''-'') \<le> length s"
proof (induction s "''--''" "''-''" rule: strings_Replace.induct)
  case 1
  show ?case by simp
next
  case (2 c cs)
  then show ?case by (cases "HasPrefix (c # cs) ''--''") auto
qed

lemma strings_Replace_hyphens_shorter:
  "HasPrefix (drop i s) ''--'' \<Longrightarrow> length (strings_Replace s ''--'' ''-'') < length s"
proof (induction s arbitrary: i)
  case Nil
  then show ?case by (simp add: HasPrefix_def)
next
  case (Cons c cs)
  show ?case
  proof (cases "HasPrefix (c # cs) ''--''")
    case True
    then have "cs \<noteq> []" by (auto simp: HasPrefix_def)
    moreover have "length (strings_Replace (drop 2 (c # cs)) ''--'' ''-'') \<le> length (drop 2 (c # cs))"
      by (rule strings_Replace_hyphens_length)
    ultimately show ?thesis using True by (cases cs) simp_all
  next
    case False
    with Cons.prems obtain j where i: "i = Suc j" by (cases i) auto
    with Cons.prems have "HasPrefix (drop j cs) ''--''" by simp
    from Cons.IH[OF this] False show ?thesis by simp
  qed
qed

lemma strings_Trim_id:
  assumes "s \<noteq> []" and "hd s \<notin> set cutset" and "last s \<notin> set cutset"
  shows "strings_Trim s cutset = s"
proof -
  obtain x xs where s: "s = x # xs" using assms(1) by (cases s) auto
  have "dropWhile (\<lambda>c. c \<in> set cutset) s = s" using assms(2) s by simp
  moreover have "dropWhile (\<lambda>c. c \<in> set cutset) (rev s) = rev s"
    using assms(1,3) by (cases "rev s") (auto simp: last_rev[symmetric] simp del: last_rev)
  ultimately show ?thesis by (simp add: strings_Trim_def)
qed

lemma makeDNSLabelSafe_fixpoint:
  assumes label: "isDNSLabel t" and single: "\<forall>i. \<not> HasPrefix (drop i t) ''--''"
  shows "makeDNSLabelSafe U t = t"
proof -
  from label have ne: "t \<noteq> []" and letter: "isLowerLetter (hd t)" and cls: "list_all isLabelChar t"
    and lst: "last t \<noteq> CHR ''-''" and len: "length t \<le> 63"
    by (simp_all add: isDNSLabel_def)
  have v1: "strings_ToLower U t = t" using cls by (rule strings_ToLower_class)
  have v2: "replaceInvalidRuns t = t" using cls by (rule replaceInvalidRuns_id)
  have v3: "strings_Replace t ''--'' ''-'' = t" using single by (rule strings_Replace_absent)
  have hdn: "hd t \<notin> set ''-''" using letter by (auto simp: isLowerLetter_def)
  have lsn: "last t \<notin> set ''-''" using lst by simp
  have v4: "strings_Trim t ''-'' = t" using ne hdn lsn by (rule strings_Trim_id)
  have v5: "stripLeadingDigitsHyphens t = t"
    using ne letter by (cases t) (auto simp: stripLeadingDigitsHyphens_def isLowerLetter_def isDigit_def)
  show ?thesis
    using len by (simp add: makeDNSLabelSafe_def Let_def v1 v2 v3 v4 v5)
qed

lemma makeDNSLabelSafe_length_hyphens:
  assumes cls: "list_all isLabelChar t" and double: "HasPrefix (drop i t) ''--''"
  shows "length (makeDNSLabelSafe U t) < length t"
proof -
  have v1: "strings_ToLower U t = t" using cls by (rule strings_ToLower_class)
  have v2: "replaceInvalidRuns t = t" using cls by (rule replaceInvalidRuns_id)
  let ?v3 = "strings_Replace t ''--'' ''-''"
  let ?v4 = "strings_Trim ?v3 ''-''"
  let ?v5 = "stripLeadingDigitsHyphens ?v4"
  let ?v6 = "if length ?v5 > 63 then take 63 ?v5 else ?v5"
  have res: "makeDNSLabelSafe U t = strings_Trim ?v6 ''-''"
    by (simp add: makeDNSLabelSafe_def Let_def v1 v2)
  have "length (strings_Trim ?v6 ''-'') \<le> length ?v6" by (rule strings_Trim_length)
  also have "\<dots> \<le> length ?v5" by simp
  also have "\<dots> \<le> length ?v4" by (simp add: stripLeadingDigitsHyphens_def length_dropWhile_le)
  also have "\<dots> \<le> length ?v3" by (rule strings_Trim_length)
  also have "\<dots> < length t" using double by (rule strings_Replace_hyphens_shorter)
  finally show ?thesis by (simp add: res)
qed

lemma makeDNSLabelSafe_idempotent_iff:
  "makeDNSLabelSafe U (makeDNSLabelSafe U s) = makeDNSLabelSafe U s \<longleftrightarrow>
     (\<forall>i. \<not> HasPrefix (drop i (makeDNSLabelSafe U s)) ''--'')"
proof
  assume eq: "makeDNSLabelSafe U (makeDNSLabelSafe U s) = makeDNSLabelSafe U s"
  show "\<forall>i. \<not> HasPrefix (drop i (makeDNSLabelSafe U s)) ''--''"
  proof (intro allI notI)
    fix i
    assume d: "HasPrefix (drop i (makeDNSLabelSafe U s)) ''--''"
    then have "makeDNSLabelSafe U s \<noteq> []" by (auto simp: HasPrefix_def)
    then have "isDNSLabel (makeDNSLabelSafe U s)" using makeDNSLabelSafe_shape[of U s] by simp
    then have "list_all isLabelChar (makeDNSLabelSafe U s)" by (simp add: isDNSLabel_def)
    from makeDNSLabelSafe_length_hyphens[OF this d, of U] eq show False by simp
  qed
next
  assume single: "\<forall>i. \<not> HasPrefix (drop i (makeDNSLabelSafe U s)) ''--''"
  show "makeDNSLabelSafe U (makeDNSLabelSafe U s) = makeDNSLabelSafe U s"
  proof (cases "makeDNSLabelSafe U s = []")
    case True
    have "makeDNSLabelSafe U [] = []"
      by (simp add: makeDNSLabelSafe_def strings_ToLower_def strings_Trim_def stripLeadingDigitsHyphens_def)
    with True show ?thesis by simp
  next
    case False
    then have "isDNSLabel (makeDNSLabelSafe U s)" using makeDNSLabelSafe_shape[of U s] by simp
    then show ?thesis using single by (rule makeDNSLabelSafe_fixpoint)
  qed
qed

text \<open>
  C3. The output of makeDNSLabelSafe is empty or matches the regular expression
  (\<open>makeDNSLabelSafe_shape\<close>), but the function is idempotent at \<open>s\<close> only when the
  output for \<open>s\<close> holds no doubled hyphen (\<open>makeDNSLabelSafe_idempotent_iff\<close>). A run
  of three hyphens is halved only once, to two hyphens, by the single pass of
  \<^verbatim>\<open>strings.Replace(value, "--", "-", -1)\<close>; a second application halves it again, so
  the function is not idempotent on \<^verbatim>\<open>"a---b"\<close>.
\<close>

theorem makeDNSLabelSafe_triple_hyphen:
  "makeDNSLabelSafe U ''a---b'' = ''a--b''
   \<and> makeDNSLabelSafe U (makeDNSLabelSafe U ''a---b'') = ''a-b''"
  by code_simp

subsection \<open>getZiplineeEnv and the expansion of a when expression\<close>

lemma os_Expand_no_dollar:
  "CHR ''$'' \<notin> set pre \<Longrightarrow> os_Expand (pre @ s) mapping = pre @ os_Expand s mapping"
  by (induction pre) auto

lemma scanBrace_closing:
  "CHR ''}'' \<notin> set xs \<Longrightarrow>
   scanBrace s i (xs @ CHR ''}'' # post) =
     (if i + length xs = 1 then ([], 2)
      else (take (i + length xs - 1) (drop 1 s), i + length xs + 1))"
  by (induction xs arbitrary: i) auto

lemma getShellName_braced:
  assumes "name \<noteq> []" and "CHR ''}'' \<notin> set name"
  shows "getShellName (CHR ''{'' # name @ CHR ''}'' # post) = (name, length name + 2)"
proof -
  let ?s = "CHR ''{'' # name @ CHR ''}'' # post"
  obtain c cs where name: "name = c # cs" using assms(1) by (cases name) auto
  show ?thesis
  proof (cases "isShellSpecialVar (?s ! 1) \<and> ?s ! 2 = CHR ''}''")
    case True
    then have "cs = []" using assms(2) name by (cases cs) auto
    with True name show ?thesis by (simp add: getShellName_def)
  next
    case False
    have "scanBrace ?s 1 (name @ CHR ''}'' # post) = (name, length name + 2)"
      using assms by (subst scanBrace_closing) auto
    with False show ?thesis by (auto simp add: getShellName_def)
  qed
qed

lemma os_Expand_braced:
  assumes "name \<noteq> []" and "CHR ''}'' \<notin> set name"
  shows "os_Expand (''${'' @ name @ ''}'' @ post) mapping = mapping name @ os_Expand post mapping"
proof -
  have "os_Expand (CHR ''$'' # CHR ''{'' # name @ CHR ''}'' # post) mapping
        = mapping name @ os_Expand (drop (length name + 2) (CHR ''{'' # name @ CHR ''}'' # post)) mapping"
    using assms by (simp add: getShellName_braced)
  then show ?thesis by simp
qed

lemma os_Expand_reference:
  assumes "CHR ''$'' \<notin> set pre" and "name \<noteq> []" and "CHR ''}'' \<notin> set name"
  shows "os_Expand (pre @ ''${'' @ name @ ''}'' @ post) mapping = pre @ mapping name @ os_Expand post mapping"
proof -
  have "os_Expand (pre @ (''${'' @ name @ ''}'' @ post)) mapping
        = pre @ os_Expand (''${'' @ name @ ''}'' @ post) mapping"
    using assms(1) by (rule os_Expand_no_dollar)
  also have "os_Expand (''${'' @ name @ ''}'' @ post) mapping = mapping name @ os_Expand post mapping"
    using assms(2,3) by (rule os_Expand_braced)
  finally show ?thesis .
qed

lemma getZiplineeEnvvarName_default: "prefix h = ''ZIPLINEE_'' \<Longrightarrow> getZiplineeEnvvarName h key = key"
  by (simp add: getZiplineeEnvvarName_def strings_Replace_same)

text \<open>
  C9. When the prefix-mapped name of a key does not start with the configured prefix,
  getZiplineeEnv returns the placeholder \<^verbatim>\<open>${<name>}\<close> built from that name and does
  not read the environment. So the expansion that Evaluate performs replaces a reference
  \<^verbatim>\<open>${key}\<close> by the environment value only for a prefix-scoped name and by the
  placeholder text otherwise. With the prefix \<^verbatim>\<open>ZIPLINEE_\<close> of main.go the mapped
  name is the key itself, so the reference is left as it was written.
\<close>

theorem getZiplineeEnv_placeholder_outside_prefix:
  "(\<not> HasPrefix (getZiplineeEnvvarName h key) (prefix h) \<longrightarrow>
      getZiplineeEnv h env key = ''${'' @ getZiplineeEnvvarName h key @ ''}'')
   \<and> (CHR ''$'' \<notin> set pre \<and> key \<noteq> [] \<and> CHR ''}'' \<notin> set key \<longrightarrow>
        os_Expand (pre @ ''${'' @ key @ ''}'' @ post) (getZiplineeEnv h env) =
          pre @ (if HasPrefix (getZiplineeEnvvarName h key) (prefix h)
                 then os_Getenv env (getZiplineeEnvvarName h key)
                 else ''${'' @ getZiplineeEnvvarName h key @ ''}'')
              @ os_Expand post (getZiplineeEnv h env))
   \<and> (prefix h = ''ZIPLINEE_'' \<longrightarrow> getZiplineeEnvvarName h key = key)"
proof (intro conjI impI)
  assume "\<not> HasPrefix (getZiplineeEnvvarName h key) (prefix h)"
  then show "getZiplineeEnv h env key = ''${'' @ getZiplineeEnvvarName h key @ ''}''"
    by (simp add: getZiplineeEnv_def Let_def)
next
  assume a: "CHR ''$'' \<notin> set pre \<and> key \<noteq> [] \<and> CHR ''}'' \<notin> set key"
  have "os_Expand (pre @ ''${'' @ key @ ''}'' @ post) (getZiplineeEnv h env)
        = pre @ getZiplineeEnv h env key @ os_Expand post (getZiplineeEnv h env)"
    using a by (intro os_Expand_reference) simp_all
  then show "os_Expand (pre @ ''${'' @ key @ ''}'' @ post) (getZiplineeEnv h env) =
          pre @ (if HasPrefix (getZiplineeEnvvarName h key) (prefix h)
                 then os_Getenv env (getZiplineeEnvvarName h key)
                 else ''${'' @ getZiplineeEnvvarName h key @ ''}'')
              @ os_Expand post (getZiplineeEnv h env)"
    by (simp add: getZiplineeEnv_def Let_def)
next
  assume "prefix h = ''ZIPLINEE_''"
  then show "getZiplineeEnvvarName h key = key"
    by (rule getZiplineeEnvvarName_default)
qed

theorem getZiplineeEnv_placeholder_outside_prefix_witness:
  "getZiplineeEnv \<lparr>prefix = ''ZIPLINEE_'', ciServer = ''ziplinee''\<rparr>
     [''HOME'' \<mapsto> ''/root'', ''ZIPLINEE_GIT_BRANCH'' \<mapsto> ''main''] ''HOME'' = ''${HOME}''
   \<and> os_Expand (''branch == '' @ ''${'' @ ''HOME'' @ ''}'' @ [])
        (getZiplineeEnv \<lparr>prefix = ''ZIPLINEE_'', ciServer = ''ziplinee''\<rparr>
           [''HOME'' \<mapsto> ''/root'', ''ZIPLINEE_GIT_BRANCH'' \<mapsto> ''main'']) = ''branch == ${HOME}''
   \<and> os_Expand (''branch == '' @ ''${'' @ ''ZIPLINEE_GIT_BRANCH'' @ ''}'' @ [])
        (getZiplineeEnv \<lparr>prefix = ''ZIPLINEE_'', ciServer = ''ziplinee''\<rparr>
           [''HOME'' \<mapsto> ''/root'', ''ZIPLINEE_GIT_BRANCH'' \<mapsto> ''main'']) = ''branch == main''"
proof -
  let ?h = "\<lparr>prefix = ''ZIPLINEE_'', ciServer = ''ziplinee''\<rparr>"
  let ?env = "[''HOME'' \<mapsto> ''/root'', ''ZIPLINEE_GIT_BRANCH'' \<mapsto> ''main'']"
  note home = getZiplineeEnv_placeholder_outside_prefix
                [of ?h "''HOME''" ?env "''branch == ''" "[]"]
  note branch = getZiplineeEnv_placeholder_outside_prefix
                [of ?h "''ZIPLINEE_GIT_BRANCH''" ?env "''branch == ''" "[]"]
  have nm1: "getZiplineeEnvvarName ?h ''HOME'' = ''HOME''"
    using home by simp
  have nm2: "getZiplineeEnvvarName ?h ''ZIPLINEE_GIT_BRANCH'' = ''ZIPLINEE_GIT_BRANCH''"
    using branch by simp
  have np: "\<not> HasPrefix ''HOME'' ''ZIPLINEE_''" and pp: "HasPrefix ''ZIPLINEE_GIT_BRANCH'' ''ZIPLINEE_''"
    by (simp_all add: HasPrefix_def)
  have 1: "getZiplineeEnv ?h ?env ''HOME'' = ''${HOME}''"
    using home nm1 np by simp
  have 2: "os_Expand (''branch == '' @ ''${'' @ ''HOME'' @ ''}'' @ []) (getZiplineeEnv ?h ?env)
           = ''branch == ${HOME}''"
    using home nm1 np by simp
  have 3: "os_Expand (''branch == '' @ ''${'' @ ''ZIPLINEE_GIT_BRANCH'' @ ''}'' @ []) (getZiplineeEnv ?h ?env)
           = ''branch == main''"
    using branch nm2 pp by (simp add: os_Getenv_def)
  from 1 2 3 show ?thesis by blast
qed

subsection \<open>Evaluate\<close>

text \<open>
  C6. Evaluate returns false with an error for the empty expression and for an
  expression whose value is not a boolean; a boolean value is returned as the result
  (with the error of the evaluation call). The string handed to the parser is the
  expansion of the input, in which a reference \<^verbatim>\<open>${name}\<close> stands replaced by
  \<open>getZiplineeEnv name\<close>; a parse error is returned with result false.
\<close>

theorem Evaluate_results:
  "Evaluate h env NewEvaluableExpression expression_Evaluate [] parameters = (False, Some ErrWhenEmpty)
   \<and> (input \<noteq> []
        \<and> NewEvaluableExpression (os_Expand input (getZiplineeEnv h env)) = Inr expression
        \<and> expression_Evaluate expression parameters = (GoOther v, err) \<longrightarrow>
      Evaluate h env NewEvaluableExpression expression_Evaluate input parameters
        = (False, Some ErrWhenNotBoolean))
   \<and> (input \<noteq> []
        \<and> NewEvaluableExpression (os_Expand input (getZiplineeEnv h env)) = Inr expression
        \<and> expression_Evaluate expression parameters = (GoBool b, err) \<longrightarrow>
      Evaluate h env NewEvaluableExpression expression_Evaluate input parameters = (b, err))
   \<and> (input \<noteq> []
        \<and> NewEvaluableExpression (os_Expand input (getZiplineeEnv h env)) = Inl perr \<longrightarrow>
      Evaluate h env NewEvaluableExpression expression_Evaluate input parameters = (False, Some perr))
   \<and> (CHR ''$'' \<notin> set pre \<and> name \<noteq> [] \<and> CHR ''}'' \<notin> set name \<longrightarrow>
        os_Expand (pre @ ''${'' @ name @ ''}'' @ post) (getZiplineeEnv h env) =
          pre @ getZiplineeEnv h env name @ os_Expand post (getZiplineeEnv h env))"
proof -
  have 1: "Evaluate h env NewEvaluableExpression expression_Evaluate [] parameters
           = (False, Some ErrWhenEmpty)"
    by (simp add: Evaluate_def)
  have 2: "CHR ''$'' \<notin> set pre \<and> name \<noteq> [] \<and> CHR ''}'' \<notin> set name \<longrightarrow>
        os_Expand (pre @ ''${'' @ name @ ''}'' @ post) (getZiplineeEnv h env) =
          pre @ getZiplineeEnv h env name @ os_Expand post (getZiplineeEnv h env)"
    using os_Expand_reference by blast
  show ?thesis
    using 1 2 by (simp add: Evaluate_def Let_def)
qed

theorem Evaluate_results_witness:
  "Evaluate \<lparr>prefix = ''ZIPLINEE_'', ciServer = ''ziplinee''\<rparr> [''ZIPLINEE_FLAG'' \<mapsto> ''true'']
      Inr (\<lambda>e p. if e = ''true'' then (GoBool True, None) else (GoOther e, None))
      (''${'' @ ''ZIPLINEE_FLAG'' @ ''}'') () = (True, None)
   \<and> Evaluate \<lparr>prefix = ''ZIPLINEE_'', ciServer = ''ziplinee''\<rparr> [''ZIPLINEE_FLAG'' \<mapsto> ''true'']
      Inr (\<lambda>e p. if e = ''true'' then (GoBool True, None) else (GoOther e, None))
      (''${'' @ ''HOME'' @ ''}'') () = (False, Some ErrWhenNotBoolean)
   \<and> Evaluate \<lparr>prefix = ''ZIPLINEE_'', ciServer = ''ziplinee''\<rparr> [''ZIPLINEE_FLAG'' \<mapsto> ''true'']
      (\<lambda>s. Inl (ErrLibrary s)) (\<lambda>(e::string) p. (GoOther e, None))
      (''${'' @ ''ZIPLINEE_FLAG'' @ ''}'') () = (False, Some (ErrLibrary ''true''))"
proof -
  let ?h = "\<lparr>prefix = ''ZIPLINEE_'', ciServer = ''ziplinee''\<rparr>"
  let ?env = "[''ZIPLINEE_FLAG'' \<mapsto> ''true'']"
  let ?E = "\<lambda>(e::string) (p::unit). if e = ''true'' then (GoBool True, None :: error option) else (GoOther e, None)"
  let ?m = "getZiplineeEnv ?h ?env"
  have g1: "?m ''ZIPLINEE_FLAG'' = ''true''" by code_simp
  have g2: "?m ''HOME'' = ''${HOME}''" by code_simp
  note flag = Evaluate_results[where h = ?h and env = ?env and pre = "[]" and post = "[]"
        and name = "''ZIPLINEE_FLAG''" and input = "''${'' @ ''ZIPLINEE_FLAG'' @ ''}''"
        and parameters = "()"]
  note home = Evaluate_results[where h = ?h and env = ?env and pre = "[]" and post = "[]"
        and name = "''HOME''" and input = "''${'' @ ''HOME'' @ ''}''"
        and parameters = "()"]
  have x1: "os_Expand (''${'' @ ''ZIPLINEE_FLAG'' @ ''}'') ?m = ''true''"
    using flag[where NewEvaluableExpression = Inr and expression_Evaluate = ?E] g1 by simp
  have x2: "os_Expand (''${'' @ ''HOME'' @ ''}'') ?m = ''${HOME}''"
    using home[where NewEvaluableExpression = Inr and expression_Evaluate = ?E] g2 by simp
  have 1: "Evaluate ?h ?env Inr ?E (''${'' @ ''ZIPLINEE_FLAG'' @ ''}'') () = (True, None)"
    using flag[where NewEvaluableExpression = Inr and expression_Evaluate = ?E
        and expression = "''true''" and err = None and b = True] x1 by simp
  have 2: "Evaluate ?h ?env Inr ?E (''${'' @ ''HOME'' @ ''}'') () = (False, Some ErrWhenNotBoolean)"
    using home[where NewEvaluableExpression = Inr and expression_Evaluate = ?E
        and expression = "''${HOME}''" and v = "''${HOME}''" and err = None] x2 by simp
  have 3: "Evaluate ?h ?env (\<lambda>s. Inl (ErrLibrary s)) (\<lambda>(e::string) (p::unit). (GoOther e, None))
             (''${'' @ ''ZIPLINEE_FLAG'' @ ''}'') () = (False, Some (ErrLibrary ''true''))"
    using flag[where NewEvaluableExpression = "\<lambda>s. Inl (ErrLibrary s)"
        and expression_Evaluate = "\<lambda>(e::string) (p::unit). (GoOther e, None)"
        and perr = "ErrLibrary ''true''"] x1
    by simp
  from 1 2 3 show ?thesis by blast
qed

subsection \<open>setZiplineeEventEnvvars\<close>

lemma setZiplineeEnv_accepts:
  "setenvAccepts (getZiplineeEnvvarName h key, v) \<Longrightarrow>
   setZiplineeEnv h env key v = Inr (assign env (getZiplineeEnvvarName h key, v))"
  by (simp add: setZiplineeEnv_def os_Setenv_def setenvAccepts_def assign_def Let_def)

lemma propertyLoop_assignments:
  "list_all setenvAccepts (payloadAssignments h S e kind properties) \<Longrightarrow>
   propertyLoop h S e kind env properties =
     Inr (foldl assign env (payloadAssignments h S e kind properties))"
proof (induction properties arbitrary: env)
  case Nil
  show ?case by (simp add: payloadAssignments_def)
next
  case (Cons p properties)
  obtain field v where p: "p = (field, v)" by (cases p)
  from Cons.prems have rest: "list_all setenvAccepts (payloadAssignments h S e kind properties)"
    by (simp add: payloadAssignments_def p)
  from Cons.prems have k: "Fired e \<Longrightarrow> setenvAccepts (triggerVariable h S kind field, envvarValueOf v)"
    and n: "Name e \<noteq> [] \<Longrightarrow> setenvAccepts (triggerVariable h S (Name e) field, envvarValueOf v)"
    by (simp_all add: payloadAssignments_def p)
  show ?case
    using k n Cons.IH[OF rest]
    by (simp add: p payloadAssignments_def triggerVariable_def setZiplineeEnv_accepts Let_def)
qed

lemma fieldLoop_assignments:
  "list_all setenvAccepts (concat (map (\<lambda>(kind, payload).
        case payload of PointerTo properties \<Rightarrow> payloadAssignments h S e kind properties | _ \<Rightarrow> []) fs)) \<Longrightarrow>
   fieldLoop h S e env fs =
     Inr (foldl assign env (concat (map (\<lambda>(kind, payload).
        case payload of PointerTo properties \<Rightarrow> payloadAssignments h S e kind properties | _ \<Rightarrow> []) fs)))"
proof (induction fs arbitrary: env)
  case Nil
  show ?case by simp
next
  case (Cons f fs)
  obtain kind payload where f: "f = (kind, payload)" by (cases f)
  show ?case
  proof (cases payload)
    case (PointerTo properties)
    with Cons.prems f have here: "list_all setenvAccepts (payloadAssignments h S e kind properties)"
      by simp
    from Cons.prems f PointerTo show ?thesis
      by (simp add: propertyLoop_assignments[OF here] Cons.IH)
  qed (use Cons f in simp_all)
qed

lemma setZiplineeEventEnvvars_assignments:
  "list_all setenvAccepts (concat (map (eventAssignments h S) events)) \<Longrightarrow>
   setZiplineeEventEnvvars h S env events =
     Inr (foldl assign env (concat (map (eventAssignments h S) events)))"
proof (induction events arbitrary: env)
  case Nil
  show ?case by simp
next
  case (Cons e events)
  from Cons.prems have here: "list_all setenvAccepts (eventAssignments h S e)"
    and rest: "list_all setenvAccepts (concat (map (eventAssignments h S) events))"
    by simp_all
  have "fieldLoop h S e env (Fields e) = Inr (foldl assign env (eventAssignments h S e))"
    using here unfolding eventAssignments_def by (rule fieldLoop_assignments)
  then show ?case using Cons.IH[OF rest] by simp
qed

lemma payloadAssignments_member:
  "(k, v) \<in> set (payloadAssignments h S e kind properties) \<longleftrightarrow>
     (\<exists>field pv. (field, pv) \<in> set properties \<and> v = envvarValueOf pv \<and>
        ((Fired e \<and> k = triggerVariable h S kind field)
         \<or> (Name e \<noteq> [] \<and> k = triggerVariable h S (Name e) field)))"
  by (auto simp: payloadAssignments_def split: if_splits)

lemma triggerVariable_default_prefix:
  "prefix h = ''ZIPLINEE_'' \<Longrightarrow>
   triggerVariable h S kindOrName field = ''ZIPLINEE_TRIGGER_'' @ S kindOrName @ ''_'' @ S field"
  by (simp add: triggerVariable_def getZiplineeEnvvarName_default)

lemma strings_Replace_at_prefix:
  "old \<noteq> [] \<Longrightarrow> strings_Replace (old @ rest) old new = new @ strings_Replace rest old new"
  by (cases old) (simp_all add: HasPrefix_def)

lemma getZiplineeEnvvarName_prefixed:
  "\<forall>i. \<not> HasPrefix (drop i rest) ''ZIPLINEE_'' \<Longrightarrow>
   getZiplineeEnvvarName h (''ZIPLINEE_'' @ rest) = prefix h @ rest"
  unfolding getZiplineeEnvvarName_def
  by (subst strings_Replace_at_prefix) (simp_all add: strings_Replace_absent)

lemma triggerVariable_prefixed:
  "\<forall>i. \<not> HasPrefix (drop i (''TRIGGER_'' @ S kindOrName @ ''_'' @ S field)) ''ZIPLINEE_'' \<Longrightarrow>
   triggerVariable h S kindOrName field = prefix h @ ''TRIGGER_'' @ S kindOrName @ ''_'' @ S field"
  unfolding triggerVariable_def
  using getZiplineeEnvvarName_prefixed[of "''TRIGGER_'' @ S kindOrName @ ''_'' @ S field" h]
  by simp

text \<open>
  C7. Provided \<^verbatim>\<open>os.Setenv\<close> accepts every name and value, setZiplineeEventEnvvars
  returns no error and has performed exactly the assignments of \<open>eventAssignments\<close>, in
  order: for each field of each non-nil payload of each event, the variable of the
  payload's kind exactly when the event fired, and the variable of the event's name
  whenever the name is not empty, fired or not.
\<close>

theorem setZiplineeEventEnvvars_trigger_variables:
  assumes "list_all setenvAccepts (concat (map (eventAssignments h ToUpperSnakeCase) events))"
  shows "setZiplineeEventEnvvars h ToUpperSnakeCase env events =
           Inr (foldl assign env (concat (map (eventAssignments h ToUpperSnakeCase) events)))"
  using assms by (rule setZiplineeEventEnvvars_assignments)

theorem setZiplineeEventEnvvars_trigger_variables_witness:
  "setZiplineeEventEnvvars \<lparr>prefix = ''TESTPREFIX_'', ciServer = ''ziplinee''\<rparr>
     (map (\<lambda>c. if isLowerLetter c then char_of ((of_char c :: nat) - 32) else c))
     Map.empty
     [\<lparr>Name = ''upstream'', Fired = False,
         Fields = [(''Name'', NotAPointer), (''Fired'', NotAPointer),
                   (''Pipeline'', PointerTo [(''Branch'', StringKind ''main''), (''Status'', StringKind ''succeeded'')]),
                   (''Git'', NilPointer)]\<rparr>,
      \<lparr>Name = [], Fired = True,
         Fields = [(''Name'', NotAPointer), (''Fired'', NotAPointer),
                   (''Pipeline'', NilPointer),
                   (''Git'', PointerTo [(''Event'', StringKind ''push'')])]\<rparr>,
      \<lparr>Name = [], Fired = False,
         Fields = [(''Name'', NotAPointer), (''Fired'', NotAPointer),
                   (''Pipeline'', NilPointer),
                   (''Cron'', PointerTo [(''Time'', OtherKind (CHR 0x22 # ''2009-11-17T20:34:58Z'' @ [CHR 0x22]))])]\<rparr>]
   = Inr [''TESTPREFIX_TRIGGER_UPSTREAM_BRANCH'' \<mapsto> ''main'',
          ''TESTPREFIX_TRIGGER_UPSTREAM_STATUS'' \<mapsto> ''succeeded'',
          ''TESTPREFIX_TRIGGER_GIT_EVENT'' \<mapsto> ''push'']"
proof -
  let ?h = "\<lparr>prefix = ''TESTPREFIX_'', ciServer = ''ziplinee''\<rparr>"
  let ?S = "map (\<lambda>c. if isLowerLetter c then char_of ((of_char c :: nat) - 32) else c)"
  let ?events = "[\<lparr>Name = ''upstream'', Fired = False,
         Fields = [(''Name'', NotAPointer), (''Fired'', NotAPointer),
                   (''Pipeline'', PointerTo [(''Branch'', StringKind ''main''), (''Status'', StringKind ''succeeded'')]),
                   (''Git'', NilPointer)]\<rparr>,
      \<lparr>Name = [], Fired = True,
         Fields = [(''Name'', NotAPointer), (''Fired'', NotAPointer),
                   (''Pipeline'', NilPointer),
                   (''Git'', PointerTo [(''Event'', StringKind ''push'')])]\<rparr>,
      \<lparr>Name = [], Fired = False,
         Fields = [(''Name'', NotAPointer), (''Fired'', NotAPointer),
                   (''Pipeline'', NilPointer),
                   (''Cron'', PointerTo [(''Time'', OtherKind (CHR 0x22 # ''2009-11-17T20:34:58Z'' @ [CHR 0x22]))])]\<rparr>]"
  have asg: "concat (map (eventAssignments ?h ?S) ?events) =
               [(''TESTPREFIX_TRIGGER_UPSTREAM_BRANCH'', ''main''),
                (''TESTPREFIX_TRIGGER_UPSTREAM_STATUS'', ''succeeded''),
                (''TESTPREFIX_TRIGGER_GIT_EVENT'', ''push'')]"
    by code_simp
  have ok: "list_all setenvAccepts (concat (map (eventAssignments ?h ?S) ?events))"
    unfolding asg by (simp add: setenvAccepts_def)
  show ?thesis
    using setZiplineeEventEnvvars_trigger_variables[OF ok, of Map.empty]
    unfolding asg by (simp add: assign_def)
qed

subsection \<open>SendBuildJobLogEvent\<close>

lemma slimOf_idem: "slimOf X (slimOf X s) = slimOf X s"
  by (simp add: slimOf_def)

lemma slimLoop_foldl:
  "\<forall>p \<in> set steps. p < length h \<Longrightarrow>
   slimLoop X h acc steps = Inr (foldl (\<lambda>h p. h[p := slimOf X (h ! p)]) h steps, acc @ steps)"
proof (induction steps arbitrary: h acc)
  case Nil
  show ?case by simp
next
  case (Cons s steps)
  let ?h1 = "h[s := slimOf X (h ! s)]"
  from Cons.prems have s: "s < length h" and rest: "\<forall>p \<in> set steps. p < length ?h1"
    by simp_all
  have step: "(if Status (h ! s) = LogStatusSucceeded X then
                     (if length (LogLines (h ! s)) > 0 then
                        h[s := (h ! s)
                           \<lparr>LogLines :=
                              [\<lparr>LineNumber = LineNumber (LogLines (h ! s) ! 0),
                                Timestamp = Timestamp (LogLines (h ! s) ! 0),
                                StreamType = ''stdout'',
                                Text = truncatedLogsText\<rparr>]\<rparr>]
                      else h)
                   else h) = ?h1"
    by (auto simp: slimOf_def hd_conv_nth)
  show ?case
    using s Cons.IH[OF rest, of "acc @ [s]"] by (simp add: step Let_def del: length_greater_0_conv)
qed

lemma foldl_slim_length:
  "length (foldl (\<lambda>h p. h[p := slimOf X (h ! p)]) h steps) = length h"
  by (induction steps arbitrary: h) simp_all

lemma foldl_slim_nth:
  "q < length h \<Longrightarrow>
   foldl (\<lambda>h p. h[p := slimOf X (h ! p)]) h steps ! q =
     (if q \<in> set steps then slimOf X (h ! q) else h ! q)"
proof (induction steps arbitrary: h)
  case Nil
  show ?case by simp
next
  case (Cons s steps)
  let ?h1 = "h[s := slimOf X (h ! s)]"
  have "q < length ?h1" using Cons.prems by simp
  from Cons.IH[OF this] show ?case
    using Cons.prems by (cases "q = s") (simp_all add: slimOf_idem)
qed

lemma logBodyFor_total:
  assumes "JobType cfg = JobTypeRelease \<longrightarrow> ReleaseID cfg \<noteq> None"
    and "JobType cfg = JobTypeBot \<longrightarrow> BotID cfg \<noteq> None"
  shows "\<exists>body. logBodyFor cfg h buildLog = Inr body
           \<and> bodySteps body = map (\<lambda>p. if p < length h then Some (h ! p) else None) (Steps buildLog)"
  using assms by (auto simp: logBodyFor_def marshal_def)

lemma SendBuildJobLogEventCore_sent:
  assumes "CIServer (config elh) = Some ci" and "JobName (config elh) = Some jobName"
    and "PostLogsURL ci \<noteq> []" and "JWT ci \<noteq> []" and "jobName \<noteq> []"
    and "NewRequestOK X (PostLogsURL ci)"
    and "logBodyFor (config elh) (heap w) buildLog = Inr body"
  shows "SendBuildJobLogEventCore X elh w buildLog =
           Inr (w\<lparr>requests := requests w @ [PostLogs (PostLogsURL ci) body]\<rparr>,
                if clientDo X (length (requests w)) then None else Some ErrDo)"
  using assms by (simp add: SendBuildJobLogEventCore_def Let_def)

lemma SendBuildJobLogEvent_retry:
  assumes ci: "CIServer (config elh) = Some ci" and jn: "JobName (config elh) = Some jobName"
    and url: "PostLogsURL ci \<noteq> []" and jwt: "JWT ci \<noteq> []" and jne: "jobName \<noteq> []"
    and rel: "JobType (config elh) = JobTypeRelease \<longrightarrow> ReleaseID (config elh) \<noteq> None"
    and bot: "JobType (config elh) = JobTypeBot \<longrightarrow> BotID (config elh) \<noteq> None"
    and req: "NewRequestOK X (PostLogsURL ci)"
    and fails: "\<not> clientDo X (length (requests w))"
    and valid: "\<forall>p \<in> set (Steps buildLog). p < length (heap w)"
  shows "\<exists>w' err first second.
           SendBuildJobLogEvent X elh w buildLog = Inr (w', err)
         \<and> logBodyFor (config elh) (heap w) buildLog = Inr first
         \<and> logBodyFor (config elh) (heap w') buildLog = Inr second
         \<and> heap w' = foldl (\<lambda>h p. h[p := slimOf X (h ! p)]) (heap w) (Steps buildLog)
         \<and> slimLoop X (heap w) [] (Steps buildLog) = Inr (heap w', Steps buildLog)
         \<and> requests w' = requests w @ [PostLogs (PostLogsURL ci) first, PostLogs (PostLogsURL ci) second]
         \<and> clockReads w' = clockReads w"
proof -
  let ?h2 = "foldl (\<lambda>h p. h[p := slimOf X (h ! p)]) (heap w) (Steps buildLog)"
  let ?wc = "w"
  obtain first where first: "logBodyFor (config elh) (heap w) buildLog = Inr first"
    using logBodyFor_total[OF rel bot] by blast
  obtain second where second: "logBodyFor (config elh) ?h2 buildLog = Inr second"
    using logBodyFor_total[OF rel bot] by blast
  let ?w1 = "?wc\<lparr>requests := requests ?wc @ [PostLogs (PostLogsURL ci) first]\<rparr>"
  have c1: "SendBuildJobLogEventCore X elh ?wc buildLog = Inr (?w1, Some ErrDo)"
    using SendBuildJobLogEventCore_sent[OF ci jn url jwt jne req, of ?wc buildLog first] first fails
    by simp
  have loop: "slimLoop X (heap w) [] (Steps buildLog) = Inr (?h2, Steps buildLog)"
    using slimLoop_foldl[OF valid, of X "[]"] by simp
  let ?w2 = "?w1\<lparr>heap := ?h2\<rparr>"
  let ?w3 = "?w2\<lparr>requests := requests ?w2 @ [PostLogs (PostLogsURL ci) second]\<rparr>"
  have c2: "SendBuildJobLogEventCore X elh ?w2 buildLog =
              Inr (?w3, if clientDo X (length (requests ?w2)) then None else Some ErrDo)"
    using SendBuildJobLogEventCore_sent[OF ci jn url jwt jne req, of ?w2 buildLog second] second
    by simp
  have "SendBuildJobLogEvent X elh w buildLog =
          Inr (?w3, if clientDo X (length (requests ?w2)) then None else Some ErrDo)"
    unfolding SendBuildJobLogEvent_def Let_def c1
    using loop c2 by simp
  moreover have "heap ?w3 = ?h2" by simp
  moreover have "requests ?w3 = requests w @ [PostLogs (PostLogsURL ci) first, PostLogs (PostLogsURL ci) second]"
    by simp
  moreover have "clockReads ?w3 = clockReads w" by simp
  ultimately show ?thesis using first second loop by (metis (no_types, lifting))
qed

text \<open>
  C1. When the first transmission of the log fails (the helper is configured, the request
  can be built, and the first exchange returns an error), SendBuildJobLogEvent performs a
  second transmission. Its payload holds, for every step pointer of the log, the slim form
  of the step: a Succeeded step with at least one line carries exactly one line, whose
  text is the truncation marker and whose line number and timestamp are those of the
  step's first line; a step that is not Succeeded is as it was. The step pointers of the
  log are valid (none is nil).
\<close>

theorem SendBuildJobLogEvent_slim_second_payload:
  assumes "CIServer (config elh) = Some ci" and "JobName (config elh) = Some jobName"
    and "PostLogsURL ci \<noteq> []" and "JWT ci \<noteq> []" and "jobName \<noteq> []"
    and "JobType (config elh) = JobTypeRelease \<longrightarrow> ReleaseID (config elh) \<noteq> None"
    and "JobType (config elh) = JobTypeBot \<longrightarrow> BotID (config elh) \<noteq> None"
    and "NewRequestOK X (PostLogsURL ci)"
    and "\<not> clientDo X (length (requests w))"
    and valid: "\<forall>p \<in> set (Steps buildLog). p < length (heap w)"
  shows "\<exists>w' err first second.
           SendBuildJobLogEvent X elh w buildLog = Inr (w', err)
         \<and> requests w' = requests w @ [PostLogs (PostLogsURL ci) first, PostLogs (PostLogsURL ci) second]
         \<and> bodySteps first = map (\<lambda>p. Some (heap w ! p)) (Steps buildLog)
         \<and> bodySteps second = map (\<lambda>p. Some (slimOf X (heap w ! p))) (Steps buildLog)
         \<and> (\<forall>p \<in> set (Steps buildLog).
               Status (heap w ! p) = LogStatusSucceeded X \<and> LogLines (heap w ! p) \<noteq> [] \<longrightarrow>
               LogLines (slimOf X (heap w ! p)) =
                 [\<lparr>LineNumber = LineNumber (hd (LogLines (heap w ! p))),
                   Timestamp = Timestamp (hd (LogLines (heap w ! p))),
                   StreamType = ''stdout'', Text = truncatedLogsText\<rparr>])
         \<and> (\<forall>p \<in> set (Steps buildLog).
               Status (heap w ! p) \<noteq> LogStatusSucceeded X \<longrightarrow> slimOf X (heap w ! p) = heap w ! p)"
proof -
  from SendBuildJobLogEvent_retry[OF assms]
  obtain w' err first second where
    run: "SendBuildJobLogEvent X elh w buildLog = Inr (w', err)"
    and first: "logBodyFor (config elh) (heap w) buildLog = Inr first"
    and second: "logBodyFor (config elh) (heap w') buildLog = Inr second"
    and heap: "heap w' = foldl (\<lambda>h p. h[p := slimOf X (h ! p)]) (heap w) (Steps buildLog)"
    and reqs: "requests w' = requests w @ [PostLogs (PostLogsURL ci) first, PostLogs (PostLogsURL ci) second]"
    by blast
  have b1: "bodySteps first = map (\<lambda>p. Some (heap w ! p)) (Steps buildLog)"
    using logBodyFor_total[OF assms(6,7), of "heap w" buildLog] first valid by auto
  have "bodySteps second = map (\<lambda>p. if p < length (heap w') then Some (heap w' ! p) else None) (Steps buildLog)"
    using logBodyFor_total[OF assms(6,7), of "heap w'" buildLog] second by auto
  also have "\<dots> = map (\<lambda>p. Some (slimOf X (heap w ! p))) (Steps buildLog)"
    using valid by (auto simp: heap foldl_slim_length foldl_slim_nth)
  finally have b2: "bodySteps second = map (\<lambda>p. Some (slimOf X (heap w ! p))) (Steps buildLog)" .
  have s1: "\<forall>p \<in> set (Steps buildLog).
               Status (heap w ! p) = LogStatusSucceeded X \<and> LogLines (heap w ! p) \<noteq> [] \<longrightarrow>
               LogLines (slimOf X (heap w ! p)) =
                 [\<lparr>LineNumber = LineNumber (hd (LogLines (heap w ! p))),
                   Timestamp = Timestamp (hd (LogLines (heap w ! p))),
                   StreamType = ''stdout'', Text = truncatedLogsText\<rparr>]"
    by (simp add: slimOf_def)
  have s2: "\<forall>p \<in> set (Steps buildLog).
               Status (heap w ! p) \<noteq> LogStatusSucceeded X \<longrightarrow> slimOf X (heap w ! p) = heap w ! p"
    by (simp add: slimOf_def)
  from run reqs b1 b2 s1 s2 show ?thesis by blast
qed

theorem SendBuildJobLogEvent_slim_second_payload_witness:
  "\<exists>w' err first second.
     SendBuildJobLogEvent
       \<lparr>clientDo = (\<lambda>n. False), NewRequestOK = (\<lambda>u. True), Now = (\<lambda>n. int n),
        LogStatusSucceeded = ''SUCCEEDED'', LogStatusFailed = ''FAILED'', ToStatus = (\<lambda>s. s)\<rparr>
       \<lparr>runAsJob = True,
        config = \<lparr>JobType = JobTypeBuild, JobName = Some ''job'',
                  CIServer = Some \<lparr>BuilderEventsURL = ''http://events'', PostLogsURL = ''http://logs'',
                                   CancelJobURL = ''http://cancel'', JWT = ''jwt'', JWTExpiry = 0\<rparr>,
                  ReleaseID = None, BotID = None, Manifest = None\<rparr>,
        podName = ''pod''\<rparr>
       \<lparr>heap = [\<lparr>Step = ''build'',
                 LogLines = [\<lparr>LineNumber = 1, Timestamp = 5, StreamType = ''stdout'', Text = ''compiling''\<rparr>,
                             \<lparr>LineNumber = 2, Timestamp = 6, StreamType = ''stdout'', Text = ''done''\<rparr>],
                 ExitCode = 0, Status = ''SUCCEEDED''\<rparr>,
                \<lparr>Step = ''test'',
                 LogLines = [\<lparr>LineNumber = 1, Timestamp = 7, StreamType = ''stderr'', Text = ''assertion failed''\<rparr>],
                 ExitCode = 1, Status = ''FAILED''\<rparr>],
        requests = [], clockReads = 0\<rparr>
       \<lparr>ID = ''1'', RepoSource = ''github.com'', RepoOwner = ''ziplineeci'', RepoName = ''ziplinee-ci-builder'',
        Steps = [0, 1]\<rparr>
       = Inr (w', err)
     \<and> requests w' = [PostLogs ''http://logs'' first, PostLogs ''http://logs'' second]
     \<and> map (map_option LogLines) (bodySteps second) =
          [Some [\<lparr>LineNumber = 1, Timestamp = 5, StreamType = ''stdout'', Text = truncatedLogsText\<rparr>],
           Some [\<lparr>LineNumber = 1, Timestamp = 7, StreamType = ''stderr'', Text = ''assertion failed''\<rparr>]]"
proof -
  let ?X = "\<lparr>clientDo = (\<lambda>n. False), NewRequestOK = (\<lambda>u. True), Now = (\<lambda>n. int n),
        LogStatusSucceeded = ''SUCCEEDED'', LogStatusFailed = ''FAILED'', ToStatus = (\<lambda>s. s)\<rparr>"
  let ?ci = "\<lparr>BuilderEventsURL = ''http://events'', PostLogsURL = ''http://logs'',
                                   CancelJobURL = ''http://cancel'', JWT = ''jwt'', JWTExpiry = 0\<rparr>"
  let ?elh = "\<lparr>runAsJob = True,
        config = \<lparr>JobType = JobTypeBuild, JobName = Some ''job'', CIServer = Some ?ci,
                  ReleaseID = None, BotID = None, Manifest = None\<rparr>,
        podName = ''pod''\<rparr>"
  let ?w = "\<lparr>heap = [\<lparr>Step = ''build'',
                 LogLines = [\<lparr>LineNumber = 1, Timestamp = 5, StreamType = ''stdout'', Text = ''compiling''\<rparr>,
                             \<lparr>LineNumber = 2, Timestamp = 6, StreamType = ''stdout'', Text = ''done''\<rparr>],
                 ExitCode = 0, Status = ''SUCCEEDED''\<rparr>,
                \<lparr>Step = ''test'',
                 LogLines = [\<lparr>LineNumber = 1, Timestamp = 7, StreamType = ''stderr'', Text = ''assertion failed''\<rparr>],
                 ExitCode = 1, Status = ''FAILED''\<rparr>],
        requests = [], clockReads = 0\<rparr>"
  let ?bl = "\<lparr>ID = ''1'', RepoSource = ''github.com'', RepoOwner = ''ziplineeci'', RepoName = ''ziplinee-ci-builder'',
        Steps = [0, 1]\<rparr>"
  have "\<exists>w' err first second.
           SendBuildJobLogEvent ?X ?elh ?w ?bl = Inr (w', err)
         \<and> requests w' = requests ?w @ [PostLogs (PostLogsURL ?ci) first, PostLogs (PostLogsURL ?ci) second]
         \<and> bodySteps first = map (\<lambda>p. Some (heap ?w ! p)) (Steps ?bl)
         \<and> bodySteps second = map (\<lambda>p. Some (slimOf ?X (heap ?w ! p))) (Steps ?bl)
         \<and> (\<forall>p \<in> set (Steps ?bl).
               Status (heap ?w ! p) = LogStatusSucceeded ?X \<and> LogLines (heap ?w ! p) \<noteq> [] \<longrightarrow>
               LogLines (slimOf ?X (heap ?w ! p)) =
                 [\<lparr>LineNumber = LineNumber (hd (LogLines (heap ?w ! p))),
                   Timestamp = Timestamp (hd (LogLines (heap ?w ! p))),
                   StreamType = ''stdout'', Text = truncatedLogsText\<rparr>])
         \<and> (\<forall>p \<in> set (Steps ?bl).
               Status (heap ?w ! p) \<noteq> LogStatusSucceeded ?X \<longrightarrow> slimOf ?X (heap ?w ! p) = heap ?w ! p)"
    by (rule SendBuildJobLogEvent_slim_second_payload[where jobName = "''job''"]) simp_all
  then obtain w' err first second where
    run: "SendBuildJobLogEvent ?X ?elh ?w ?bl = Inr (w', err)"
    and reqs: "requests w' = requests ?w @ [PostLogs (PostLogsURL ?ci) first, PostLogs (PostLogsURL ?ci) second]"
    and b2: "bodySteps second = map (\<lambda>p. Some (slimOf ?X (heap ?w ! p))) (Steps ?bl)"
    and s1: "\<forall>p \<in> set (Steps ?bl).
               Status (heap ?w ! p) = LogStatusSucceeded ?X \<and> LogLines (heap ?w ! p) \<noteq> [] \<longrightarrow>
               LogLines (slimOf ?X (heap ?w ! p)) =
                 [\<lparr>LineNumber = LineNumber (hd (LogLines (heap ?w ! p))),
                   Timestamp = Timestamp (hd (LogLines (heap ?w ! p))),
                   StreamType = ''stdout'', Text = truncatedLogsText\<rparr>]"
    and s2: "\<forall>p \<in> set (Steps ?bl).
               Status (heap ?w ! p) \<noteq> LogStatusSucceeded ?X \<longrightarrow> slimOf ?X (heap ?w ! p) = heap ?w ! p"
    by blast
  from s1 have l0: "LogLines (slimOf ?X (heap ?w ! 0)) =
      [\<lparr>LineNumber = 1, Timestamp = 5, StreamType = ''stdout'', Text = truncatedLogsText\<rparr>]"
    by simp
  from s2 have l1: "slimOf ?X (heap ?w ! 1) = heap ?w ! 1"
    by simp
  have payload: "map (map_option LogLines) (bodySteps second) =
          [Some [\<lparr>LineNumber = 1, Timestamp = 5, StreamType = ''stdout'', Text = truncatedLogsText\<rparr>],
           Some [\<lparr>LineNumber = 1, Timestamp = 7, StreamType = ''stderr'', Text = ''assertion failed''\<rparr>]]"
    unfolding b2 using l0 l1 by simp
  from reqs have reqs': "requests w' = [PostLogs ''http://logs'' first, PostLogs ''http://logs'' second]"
    by simp
  show ?thesis
    by (rule exI[of _ w'], rule exI[of _ err], rule exI[of _ first], rule exI[of _ second])
       (intro conjI run reqs' payload)
qed

text \<open>
  C10. Under the same conditions the slim log is built from the caller's own step
  pointers (the loop returns the list \<open>Steps buildLog\<close> itself), the second payload is
  read through them from the store, and no step is added to the store. Afterwards every
  Succeeded step of the log with at least one line has, in the store the caller sees, the
  single marker line in place of its lines; all other steps are as they were.
\<close>

theorem SendBuildJobLogEvent_overwrites_caller_steps:
  assumes "CIServer (config elh) = Some ci" and "JobName (config elh) = Some jobName"
    and "PostLogsURL ci \<noteq> []" and "JWT ci \<noteq> []" and "jobName \<noteq> []"
    and "JobType (config elh) = JobTypeRelease \<longrightarrow> ReleaseID (config elh) \<noteq> None"
    and "JobType (config elh) = JobTypeBot \<longrightarrow> BotID (config elh) \<noteq> None"
    and "NewRequestOK X (PostLogsURL ci)"
    and "\<not> clientDo X (length (requests w))"
    and valid: "\<forall>p \<in> set (Steps buildLog). p < length (heap w)"
  shows "\<exists>w' err second.
           SendBuildJobLogEvent X elh w buildLog = Inr (w', err)
         \<and> slimLoop X (heap w) [] (Steps buildLog) = Inr (heap w', Steps buildLog)
         \<and> last (requests w') = PostLogs (PostLogsURL ci) second
         \<and> bodySteps second = map (\<lambda>p. Some (heap w' ! p)) (Steps buildLog)
         \<and> length (heap w') = length (heap w)
         \<and> (\<forall>p \<in> set (Steps buildLog).
               Status (heap w ! p) = LogStatusSucceeded X \<and> LogLines (heap w ! p) \<noteq> [] \<longrightarrow>
               LogLines (heap w' ! p) =
                 [\<lparr>LineNumber = LineNumber (hd (LogLines (heap w ! p))),
                   Timestamp = Timestamp (hd (LogLines (heap w ! p))),
                   StreamType = ''stdout'', Text = truncatedLogsText\<rparr>])
         \<and> (\<forall>p \<in> set (Steps buildLog).
               Status (heap w ! p) \<noteq> LogStatusSucceeded X \<or> LogLines (heap w ! p) = [] \<longrightarrow>
               heap w' ! p = heap w ! p)
         \<and> (\<forall>q < length (heap w). q \<notin> set (Steps buildLog) \<longrightarrow> heap w' ! q = heap w ! q)"
proof -
  from SendBuildJobLogEvent_retry[OF assms]
  obtain w' err first second where
    run: "SendBuildJobLogEvent X elh w buildLog = Inr (w', err)"
    and second: "logBodyFor (config elh) (heap w') buildLog = Inr second"
    and heap: "heap w' = foldl (\<lambda>h p. h[p := slimOf X (h ! p)]) (heap w) (Steps buildLog)"
    and loop: "slimLoop X (heap w) [] (Steps buildLog) = Inr (heap w', Steps buildLog)"
    and reqs: "requests w' = requests w @ [PostLogs (PostLogsURL ci) first, PostLogs (PostLogsURL ci) second]"
    by blast
  have len: "length (heap w') = length (heap w)"
    by (simp add: heap foldl_slim_length)
  have lst: "last (requests w') = PostLogs (PostLogsURL ci) second"
    by (simp add: reqs)
  have "bodySteps second = map (\<lambda>p. if p < length (heap w') then Some (heap w' ! p) else None) (Steps buildLog)"
    using logBodyFor_total[OF assms(6,7), of "heap w'" buildLog] second by auto
  then have b2: "bodySteps second = map (\<lambda>p. Some (heap w' ! p)) (Steps buildLog)"
    using valid len by auto
  have nth: "heap w' ! q = (if q \<in> set (Steps buildLog) then slimOf X (heap w ! q) else heap w ! q)"
    if "q < length (heap w)" for q
    using that by (simp add: heap foldl_slim_nth)
  have o1: "\<forall>p \<in> set (Steps buildLog).
               Status (heap w ! p) = LogStatusSucceeded X \<and> LogLines (heap w ! p) \<noteq> [] \<longrightarrow>
               LogLines (heap w' ! p) =
                 [\<lparr>LineNumber = LineNumber (hd (LogLines (heap w ! p))),
                   Timestamp = Timestamp (hd (LogLines (heap w ! p))),
                   StreamType = ''stdout'', Text = truncatedLogsText\<rparr>]"
    using valid by (simp add: nth slimOf_def)
  have o2: "\<forall>p \<in> set (Steps buildLog).
               Status (heap w ! p) \<noteq> LogStatusSucceeded X \<or> LogLines (heap w ! p) = [] \<longrightarrow>
               heap w' ! p = heap w ! p"
    using valid by (auto simp: nth slimOf_def)
  have o3: "\<forall>q < length (heap w). q \<notin> set (Steps buildLog) \<longrightarrow> heap w' ! q = heap w ! q"
    by (simp add: nth)
  from run loop lst b2 len o1 o2 o3 show ?thesis by blast
qed

theorem SendBuildJobLogEvent_overwrites_caller_steps_witness:
  "\<exists>w' err.
     SendBuildJobLogEvent
       \<lparr>clientDo = (\<lambda>n. 0 < n), NewRequestOK = (\<lambda>u. True), Now = (\<lambda>n. int n),
        LogStatusSucceeded = ''SUCCEEDED'', LogStatusFailed = ''FAILED'', ToStatus = (\<lambda>s. s)\<rparr>
       \<lparr>runAsJob = False,
        config = \<lparr>JobType = JobTypeRelease, JobName = Some ''release-job'',
                  CIServer = Some \<lparr>BuilderEventsURL = ''http://events'', PostLogsURL = ''http://logs'',
                                   CancelJobURL = ''http://cancel'', JWT = ''jwt'', JWTExpiry = 0\<rparr>,
                  ReleaseID = Some ''42'', BotID = None, Manifest = None\<rparr>,
        podName = ''pod''\<rparr>
       \<lparr>heap = [\<lparr>Step = ''deploy'',
                 LogLines = [\<lparr>LineNumber = 1, Timestamp = 10, StreamType = ''stdout'', Text = ''applying''\<rparr>,
                             \<lparr>LineNumber = 2, Timestamp = 11, StreamType = ''stdout'', Text = ''applied''\<rparr>],
                 ExitCode = 0, Status = ''SUCCEEDED''\<rparr>,
                \<lparr>Step = ''notify'', LogLines = [], ExitCode = 0, Status = ''SKIPPED''\<rparr>],
        requests = [], clockReads = 0\<rparr>
       \<lparr>ID = ''7'', RepoSource = ''github.com'', RepoOwner = ''ziplineeci'', RepoName = ''ziplinee-ci-builder'',
        Steps = [0, 1, 0]\<rparr>
       = Inr (w', err)
     \<and> length (heap w') = 2
     \<and> LogLines (heap w' ! 0) =
          [\<lparr>LineNumber = 1, Timestamp = 10, StreamType = ''stdout'', Text = truncatedLogsText\<rparr>]
     \<and> heap w' ! 1 = \<lparr>Step = ''notify'', LogLines = [], ExitCode = 0, Status = ''SKIPPED''\<rparr>"
proof -
  let ?X = "\<lparr>clientDo = (\<lambda>n. 0 < n), NewRequestOK = (\<lambda>u. True), Now = (\<lambda>n. int n),
        LogStatusSucceeded = ''SUCCEEDED'', LogStatusFailed = ''FAILED'', ToStatus = (\<lambda>s. s)\<rparr>"
  let ?ci = "\<lparr>BuilderEventsURL = ''http://events'', PostLogsURL = ''http://logs'',
                                   CancelJobURL = ''http://cancel'', JWT = ''jwt'', JWTExpiry = 0\<rparr>"
  let ?elh = "\<lparr>runAsJob = False,
        config = \<lparr>JobType = JobTypeRelease, JobName = Some ''release-job'', CIServer = Some ?ci,
                  ReleaseID = Some ''42'', BotID = None, Manifest = None\<rparr>,
        podName = ''pod''\<rparr>"
  let ?w = "\<lparr>heap = [\<lparr>Step = ''deploy'',
                 LogLines = [\<lparr>LineNumber = 1, Timestamp = 10, StreamType = ''stdout'', Text = ''applying''\<rparr>,
                             \<lparr>LineNumber = 2, Timestamp = 11, StreamType = ''stdout'', Text = ''applied''\<rparr>],
                 ExitCode = 0, Status = ''SUCCEEDED''\<rparr>,
                \<lparr>Step = ''notify'', LogLines = [], ExitCode = 0, Status = ''SKIPPED''\<rparr>],
        requests = [], clockReads = 0\<rparr>"
  let ?bl = "\<lparr>ID = ''7'', RepoSource = ''github.com'', RepoOwner = ''ziplineeci'', RepoName = ''ziplinee-ci-builder'',
        Steps = [0, 1, 0]\<rparr>"
  have "\<exists>w' err second.
           SendBuildJobLogEvent ?X ?elh ?w ?bl = Inr (w', err)
         \<and> slimLoop ?X (heap ?w) [] (Steps ?bl) = Inr (heap w', Steps ?bl)
         \<and> last (requests w') = PostLogs (PostLogsURL ?ci) second
         \<and> bodySteps second = map (\<lambda>p. Some (heap w' ! p)) (Steps ?bl)
         \<and> length (heap w') = length (heap ?w)
         \<and> (\<forall>p \<in> set (Steps ?bl).
               Status (heap ?w ! p) = LogStatusSucceeded ?X \<and> LogLines (heap ?w ! p) \<noteq> [] \<longrightarrow>
               LogLines (heap w' ! p) =
                 [\<lparr>LineNumber = LineNumber (hd (LogLines (heap ?w ! p))),
                   Timestamp = Timestamp (hd (LogLines (heap ?w ! p))),
                   StreamType = ''stdout'', Text = truncatedLogsText\<rparr>])
         \<and> (\<forall>p \<in> set (Steps ?bl).
               Status (heap ?w ! p) \<noteq> LogStatusSucceeded ?X \<or> LogLines (heap ?w ! p) = [] \<longrightarrow>
               heap w' ! p = heap ?w ! p)
         \<and> (\<forall>q < length (heap ?w). q \<notin> set (Steps ?bl) \<longrightarrow> heap w' ! q = heap ?w ! q)"
    by (rule SendBuildJobLogEvent_overwrites_caller_steps[where jobName = "''release-job''"]) simp_all
  then obtain w' err where
    run: "SendBuildJobLogEvent ?X ?elh ?w ?bl = Inr (w', err)"
    and len: "length (heap w') = length (heap ?w)"
    and o1: "\<forall>p \<in> set (Steps ?bl).
               Status (heap ?w ! p) = LogStatusSucceeded ?X \<and> LogLines (heap ?w ! p) \<noteq> [] \<longrightarrow>
               LogLines (heap w' ! p) =
                 [\<lparr>LineNumber = LineNumber (hd (LogLines (heap ?w ! p))),
                   Timestamp = Timestamp (hd (LogLines (heap ?w ! p))),
                   StreamType = ''stdout'', Text = truncatedLogsText\<rparr>]"
    and o2: "\<forall>p \<in> set (Steps ?bl).
               Status (heap ?w ! p) \<noteq> LogStatusSucceeded ?X \<or> LogLines (heap ?w ! p) = [] \<longrightarrow>
               heap w' ! p = heap ?w ! p"
    by blast
  from len have len': "length (heap w') = 2" by simp
  from o1 have l0: "LogLines (heap w' ! 0) =
      [\<lparr>LineNumber = 1, Timestamp = 10, StreamType = ''stdout'', Text = truncatedLogsText\<rparr>]"
    by simp
  from o2 have l1: "heap w' ! 1 = \<lparr>Step = ''notify'', LogLines = [], ExitCode = 0, Status = ''SKIPPED''\<rparr>"
    by simp
  show ?thesis
    by (rule exI[of _ w'], rule exI[of _ err]) (intro conjI run len' l0 l1)
qed

subsection \<open>HandleFatal\<close>

lemma sendBuilderEvent_effect:
  assumes "CIServer (config elh) = Some ci" and "JobName (config elh) = Some jobName"
  shows "\<exists>e. sendBuilderEvent X elh w buildStatus buildEventType =
           Inr (w\<lparr>requests := requests w @ lifecyclePost X elh ci jobName buildStatus buildEventType\<rparr>, e)"
  using assms by (simp add: sendBuilderEvent_def lifecyclePost_def Let_def)

lemma SendBuildJobLogEvent_effect:
  assumes ci: "CIServer (config elh) = Some ci" and jn: "JobName (config elh) = Some jobName"
    and rel: "JobType (config elh) = JobTypeRelease \<longrightarrow> ReleaseID (config elh) \<noteq> None"
    and bot: "JobType (config elh) = JobTypeBot \<longrightarrow> BotID (config elh) \<noteq> None"
    and valid: "\<forall>p \<in> set (Steps buildLog). p < length (heap w)"
  shows "\<exists>w' err first second.
           SendBuildJobLogEvent X elh w buildLog = Inr (w', err)
         \<and> logBodyFor (config elh) (heap w) buildLog = Inr first
         \<and> logBodyFor (config elh) (heap w') buildLog = Inr second
         \<and> heap w' =
             (if (PostLogsURL ci \<noteq> [] \<and> JWT ci \<noteq> [] \<and> jobName \<noteq> [])
                 \<and> \<not> (NewRequestOK X (PostLogsURL ci) \<and> clientDo X (length (requests w)))
              then foldl (\<lambda>h p. h[p := slimOf X (h ! p)]) (heap w) (Steps buildLog)
              else heap w)
         \<and> requests w' = requests w @
             (if (PostLogsURL ci \<noteq> [] \<and> JWT ci \<noteq> [] \<and> jobName \<noteq> [])
                 \<and> NewRequestOK X (PostLogsURL ci)
              then PostLogs (PostLogsURL ci) first #
                     (if clientDo X (length (requests w)) then [] else [PostLogs (PostLogsURL ci) second])
              else [])
         \<and> clockReads w' = clockReads w"
proof -
  let ?sent = "PostLogsURL ci \<noteq> [] \<and> JWT ci \<noteq> [] \<and> jobName \<noteq> []"
  let ?h2 = "foldl (\<lambda>h p. h[p := slimOf X (h ! p)]) (heap w) (Steps buildLog)"
  obtain first where first: "logBodyFor (config elh) (heap w) buildLog = Inr first"
    using logBodyFor_total[OF rel bot] by blast
  obtain second where second: "logBodyFor (config elh) ?h2 buildLog = Inr second"
    using logBodyFor_total[OF rel bot] by blast
  have loop: "slimLoop X (heap w) [] (Steps buildLog) = Inr (?h2, Steps buildLog)"
    using slimLoop_foldl[OF valid, of X "[]"] by simp
  show ?thesis
  proof (cases ?sent)
    case False
    then have "SendBuildJobLogEvent X elh w buildLog = Inr (w, None)"
      using ci jn by (auto simp: SendBuildJobLogEvent_def SendBuildJobLogEventCore_def)
    with False first show ?thesis by auto
  next
    case sent: True
    show ?thesis
    proof (cases "NewRequestOK X (PostLogsURL ci)")
      case False
      have c1: "SendBuildJobLogEventCore X elh w buildLog = Inr (w, Some ErrNewRequest)"
        using ci jn sent False first by (simp add: SendBuildJobLogEventCore_def)
      have c2: "SendBuildJobLogEventCore X elh (w\<lparr>heap := ?h2\<rparr>) buildLog
                  = Inr (w\<lparr>heap := ?h2\<rparr>, Some ErrNewRequest)"
        using ci jn sent False second by (simp add: SendBuildJobLogEventCore_def)
      have run: "SendBuildJobLogEvent X elh w buildLog = Inr (w\<lparr>heap := ?h2\<rparr>, Some ErrNewRequest)"
        unfolding SendBuildJobLogEvent_def c1 using loop c2 by simp
      show ?thesis
        by (rule exI[of _ "w\<lparr>heap := ?h2\<rparr>"], rule exI[of _ "Some ErrNewRequest"],
            rule exI[of _ first], rule exI[of _ second])
           (use run first second sent False in simp)
    next
      case built: True
      let ?w1 = "w\<lparr>requests := requests w @ [PostLogs (PostLogsURL ci) first]\<rparr>"
      have c1: "SendBuildJobLogEventCore X elh w buildLog =
                  Inr (?w1, if clientDo X (length (requests w)) then None else Some ErrDo)"
        using sent by (intro SendBuildJobLogEventCore_sent[OF ci jn _ _ _ built first]) simp_all
      show ?thesis
      proof (cases "clientDo X (length (requests w))")
        case True
        have run: "SendBuildJobLogEvent X elh w buildLog = Inr (?w1, None)"
          unfolding SendBuildJobLogEvent_def c1 using True by simp
        show ?thesis
          by (rule exI[of _ ?w1], rule exI[of _ None], rule exI[of _ first], rule exI[of _ first])
             (use run first sent built True in simp)
      next
        case False
        let ?w2 = "?w1\<lparr>heap := ?h2\<rparr>"
        let ?w3 = "?w2\<lparr>requests := requests ?w2 @ [PostLogs (PostLogsURL ci) second]\<rparr>"
        have c2: "SendBuildJobLogEventCore X elh ?w2 buildLog =
                    Inr (?w3, if clientDo X (length (requests ?w2)) then None else Some ErrDo)"
          using sent second
          by (intro SendBuildJobLogEventCore_sent[OF ci jn _ _ _ built]) simp_all
        have run: "SendBuildJobLogEvent X elh w buildLog =
                     Inr (?w3, if clientDo X (length (requests ?w2)) then None else Some ErrDo)"
          unfolding SendBuildJobLogEvent_def c1 using False loop c2 by simp
        show ?thesis
          by (rule exI[of _ ?w3], rule exI[of _ "if clientDo X (length (requests ?w2)) then None else Some ErrDo"],
              rule exI[of _ first], rule exI[of _ second])
             (use run first second sent built False in simp)
      qed
    qed
  qed
qed

lemma HandleFatal_unfold:
  "HandleFatal X elh w buildLog err message =
     (let fatalStep = \<lparr>Step = ''init'', LogLines = initStepLines X (clockReads w) err message,
                       ExitCode = -1, Status = ''FAILED''\<rparr>;
          w3 = w\<lparr>clockReads := clockReads w + length (initStepLines X (clockReads w) err message),
                 heap := heap w @ [fatalStep]\<rparr>;
          augmented = buildLog\<lparr>Steps := Steps buildLog @ [length (heap w)]\<rparr>
      in case SendBuildFinishedEvent X elh w3 (LogStatusFailed X) of
           Inl p \<Rightarrow> Inl p
         | Inr (w4, _) \<Rightarrow>
        (case SendBuildJobLogEvent X elh w4 augmented of
           Inl p \<Rightarrow> Inl p
         | Inr (w5, _) \<Rightarrow>
        (case SendBuildCleanEvent X elh w5 (LogStatusFailed X) of
           Inl p \<Rightarrow> Inl p
         | Inr (w6, _) \<Rightarrow>
             if runAsJob elh then Inr (w6, OsExit 0) else Inr (w6, LogFatalExit))))"
  by (cases err; cases "message = []")
     (simp_all add: HandleFatal_def initStepLines_def Let_def cong: sum.case_cong prod.case_cong)

text \<open>
  C5. For every error and message, when the config's \<^verbatim>\<open>CIServer\<close> and \<^verbatim>\<open>JobName\<close>
  are not nil (and neither is the release or bot of a release or bot job) and the log's
  step pointers are valid, HandleFatal returns without a panic, with exit code 0 when run
  as a job and through \<^verbatim>\<open>log.Fatal\<close> otherwise. It adds exactly one step to the store,
  \<open>fatalStep\<close>: named \<^verbatim>\<open>init\<close>, status \<^verbatim>\<open>FAILED\<close>, exit code -1, with the error
  text (when there is an error) and the message (when not empty) as stderr lines numbered
  from 1. The requests it has made are, in this order: the POST of the status update with
  \<^verbatim>\<open>LogStatusFailed\<close>; the POST of the log, whose steps are those of the given log
  followed by \<open>fatalStep\<close>, and after it, when that exchange fails, the POST of the slim
  log; the POST of the clean event with \<^verbatim>\<open>LogStatusFailed\<close>. An event or the log is
  not sent when its URL, the token or the job name is empty or its request cannot be
  built. The store afterwards is the old store followed by \<open>fatalStep\<close>, slimmed through
  the log's pointers when the first sending of the log returned an error.
\<close>

theorem HandleFatal_init_step_then_events:
  fixes X elh w buildLog err message ci jobName
  defines "fatalStep \<equiv> \<lparr>Step = ''init'', LogLines = initStepLines X (clockReads w) err message,
                          ExitCode = -1, Status = ''FAILED''\<rparr>"
    and "augmented \<equiv> buildLog\<lparr>Steps := Steps buildLog @ [length (heap w)]\<rparr>"
    and "finished \<equiv> lifecyclePost X elh ci jobName (LogStatusFailed X) BuildEventTypeUpdateStatus"
    and "cleaned \<equiv> lifecyclePost X elh ci jobName (LogStatusFailed X) BuildEventTypeClean"
    and "logsConfigured \<equiv> PostLogsURL ci \<noteq> [] \<and> JWT ci \<noteq> [] \<and> jobName \<noteq> []"
  defines "firstShipped \<equiv> NewRequestOK X (PostLogsURL ci)
                            \<and> clientDo X (length (requests w) + length finished)"
  assumes ci: "CIServer (config elh) = Some ci" and jn: "JobName (config elh) = Some jobName"
    and rel: "JobType (config elh) = JobTypeRelease \<longrightarrow> ReleaseID (config elh) \<noteq> None"
    and bot: "JobType (config elh) = JobTypeBot \<longrightarrow> BotID (config elh) \<noteq> None"
    and valid: "\<forall>p \<in> set (Steps buildLog). p < length (heap w)"
  shows "\<exists>w' first second.
           HandleFatal X elh w buildLog err message =
             Inr (w', if runAsJob elh then OsExit 0 else LogFatalExit)
         \<and> requests w' = requests w @ finished @
             (if logsConfigured \<and> NewRequestOK X (PostLogsURL ci)
              then PostLogs (PostLogsURL ci) first #
                     (if firstShipped then [] else [PostLogs (PostLogsURL ci) second])
              else [])
             @ cleaned
         \<and> logBodyFor (config elh) (heap w @ [fatalStep]) augmented = Inr first
         \<and> bodySteps first = map (\<lambda>p. Some (heap w ! p)) (Steps buildLog) @ [Some fatalStep]
         \<and> logBodyFor (config elh) (heap w') augmented = Inr second
         \<and> bodySteps second = map (\<lambda>p. Some (heap w' ! p)) (Steps buildLog) @ [Some (heap w' ! length (heap w))]
         \<and> heap w' =
             (if logsConfigured \<and> \<not> firstShipped
              then foldl (\<lambda>h p. h[p := slimOf X (h ! p)]) (heap w @ [fatalStep]) (Steps augmented)
              else heap w @ [fatalStep])
         \<and> length (heap w') = Suc (length (heap w))
         \<and> heap w' ! length (heap w) =
             (if logsConfigured \<and> \<not> firstShipped then slimOf X fatalStep else fatalStep)
         \<and> clockReads w' = clockReads w + length (initStepLines X (clockReads w) err message)"
proof -
  let ?n = "length (heap w)"
  let ?w3 = "w\<lparr>clockReads := clockReads w + length (initStepLines X (clockReads w) err message),
               heap := heap w @ [fatalStep]\<rparr>"
  let ?w4 = "?w3\<lparr>requests := requests ?w3 @ finished\<rparr>"
  obtain e4 where s4: "SendBuildFinishedEvent X elh ?w3 (LogStatusFailed X) = Inr (?w4, e4)"
    using sendBuilderEvent_effect[OF ci jn, of X ?w3 "LogStatusFailed X" BuildEventTypeUpdateStatus]
    unfolding SendBuildFinishedEvent_def finished_def by blast
  have h4: "heap ?w4 = heap w @ [fatalStep]" and r4: "requests ?w4 = requests w @ finished"
    and k4: "clockReads ?w4 = clockReads w + length (initStepLines X (clockReads w) err message)"
    by simp_all
  have valid4: "\<forall>p \<in> set (Steps augmented). p < length (heap ?w4)"
    using valid by (auto simp: augmented_def less_Suc_eq)
  from SendBuildJobLogEvent_effect[OF ci jn rel bot valid4, of X]
  obtain w5 e5 first second where
    s5: "SendBuildJobLogEvent X elh ?w4 augmented = Inr (w5, e5)"
    and first: "logBodyFor (config elh) (heap ?w4) augmented = Inr first"
    and second: "logBodyFor (config elh) (heap w5) augmented = Inr second"
    and h5: "heap w5 =
             (if (PostLogsURL ci \<noteq> [] \<and> JWT ci \<noteq> [] \<and> jobName \<noteq> [])
                 \<and> \<not> (NewRequestOK X (PostLogsURL ci) \<and> clientDo X (length (requests ?w4)))
              then foldl (\<lambda>h p. h[p := slimOf X (h ! p)]) (heap ?w4) (Steps augmented)
              else heap ?w4)"
    and r5: "requests w5 = requests ?w4 @
             (if (PostLogsURL ci \<noteq> [] \<and> JWT ci \<noteq> [] \<and> jobName \<noteq> [])
                 \<and> NewRequestOK X (PostLogsURL ci)
              then PostLogs (PostLogsURL ci) first #
                     (if clientDo X (length (requests ?w4)) then [] else [PostLogs (PostLogsURL ci) second])
              else [])"
    and k5: "clockReads w5 = clockReads ?w4"
    by blast
  let ?w6 = "w5\<lparr>requests := requests w5 @ cleaned\<rparr>"
  obtain e6 where s6: "SendBuildCleanEvent X elh w5 (LogStatusFailed X) = Inr (?w6, e6)"
    using sendBuilderEvent_effect[OF ci jn, of X w5 "LogStatusFailed X" BuildEventTypeClean]
    unfolding SendBuildCleanEvent_def cleaned_def by blast
  have run: "HandleFatal X elh w buildLog err message =
               Inr (?w6, if runAsJob elh then OsExit 0 else LogFatalExit)"
    unfolding HandleFatal_unfold Let_def fatalStep_def[symmetric] augmented_def[symmetric] s4
    using s5 s6 by simp
  have len4: "length (requests ?w4) = length (requests w) + length finished" by simp
  have heap6: "heap ?w6 =
             (if logsConfigured \<and> \<not> firstShipped
              then foldl (\<lambda>h p. h[p := slimOf X (h ! p)]) (heap w @ [fatalStep]) (Steps augmented)
              else heap w @ [fatalStep])"
    using h5 unfolding len4 h4 logsConfigured_def firstShipped_def by simp
  have reqs6: "requests ?w6 = requests w @ finished @
             (if logsConfigured \<and> NewRequestOK X (PostLogsURL ci)
              then PostLogs (PostLogsURL ci) first #
                     (if firstShipped then [] else [PostLogs (PostLogsURL ci) second])
              else [])
             @ cleaned"
    using r5 unfolding len4 r4 logsConfigured_def firstShipped_def by simp
  have len6: "length (heap ?w6) = Suc ?n"
    unfolding heap6 by (simp add: foldl_slim_length)
  have "?n < length (heap w @ [fatalStep])" by simp
  from foldl_slim_nth[OF this, of X "Steps augmented"]
  have nth: "foldl (\<lambda>h p. h[p := slimOf X (h ! p)]) (heap w @ [fatalStep]) (Steps augmented) ! ?n
               = slimOf X fatalStep"
    by (simp add: augmented_def del: foldl_append)
  have last6: "heap ?w6 ! ?n =
             (if logsConfigured \<and> \<not> firstShipped then slimOf X fatalStep else fatalStep)"
    unfolding heap6 using nth by (simp del: foldl_append)
  have b1: "bodySteps first = map (\<lambda>p. Some (heap w ! p)) (Steps buildLog) @ [Some fatalStep]"
    using logBodyFor_total[OF rel bot, of "heap ?w4" augmented] first valid
    by (auto simp: augmented_def nth_append)
  have b2: "bodySteps second =
              map (\<lambda>p. Some (heap ?w6 ! p)) (Steps buildLog) @ [Some (heap ?w6 ! ?n)]"
    using logBodyFor_total[OF rel bot, of "heap w5" augmented] second valid len6
    by (auto simp: augmented_def)
  have first6: "logBodyFor (config elh) (heap w @ [fatalStep]) augmented = Inr first"
    using first by simp
  have second6: "logBodyFor (config elh) (heap ?w6) augmented = Inr second"
    using second by simp
  have k6: "clockReads ?w6 = clockReads w + length (initStepLines X (clockReads w) err message)"
    using k5 by simp
  show ?thesis
    by (rule exI[of _ ?w6], rule exI[of _ first], rule exI[of _ second])
       (intro conjI run reqs6 first6 b1 second6 b2 heap6 len6 last6 k6)
qed

theorem HandleFatal_init_step_then_events_witness:
  "\<exists>w'.
     HandleFatal
       \<lparr>clientDo = (\<lambda>n. n \<noteq> 1), NewRequestOK = (\<lambda>u. True), Now = (\<lambda>n. 1000 + int n),
        LogStatusSucceeded = ''SUCCEEDED'', LogStatusFailed = ''FAILED'', ToStatus = (\<lambda>s. s)\<rparr>
       \<lparr>runAsJob = True,
        config = \<lparr>JobType = JobTypeBuild, JobName = Some ''job'',
                  CIServer = Some \<lparr>BuilderEventsURL = ''http://events'', PostLogsURL = ''http://logs'',
                                   CancelJobURL = ''http://cancel'', JWT = ''jwt'', JWTExpiry = 0\<rparr>,
                  ReleaseID = None, BotID = None, Manifest = None\<rparr>,
        podName = ''pod''\<rparr>
       \<lparr>heap = [\<lparr>Step = ''build'',
                 LogLines = [\<lparr>LineNumber = 1, Timestamp = 5, StreamType = ''stdout'', Text = ''compiling''\<rparr>,
                             \<lparr>LineNumber = 2, Timestamp = 6, StreamType = ''stdout'', Text = ''done''\<rparr>],
                 ExitCode = 0, Status = ''SUCCEEDED''\<rparr>],
        requests = [], clockReads = 0\<rparr>
       \<lparr>ID = ''1'', RepoSource = ''github.com'', RepoOwner = ''ziplineeci'', RepoName = ''ziplinee-ci-builder'',
        Steps = [0]\<rparr>
       (Some ''cannot connect to the docker daemon'') ''Error starting docker daemon''
       = Inr (w', OsExit 0)
     \<and> requests w' =
          [PostEvent ''http://events''
             \<lparr>EventType = BuildEventTypeUpdateStatus, EventJobType = JobTypeBuild,
              EventJobName = ''job'', EventPodName = ''pod'', EventStatus = ''FAILED''\<rparr>,
           PostLogs ''http://logs''
             (BuildLogBody
               \<lparr>LogID = ''1'', LogRepoSource = ''github.com'', LogRepoOwner = ''ziplineeci'',
                LogRepoName = ''ziplinee-ci-builder'',
                LogSteps =
                  [Some \<lparr>Step = ''build'',
                         LogLines = [\<lparr>LineNumber = 1, Timestamp = 5, StreamType = ''stdout'', Text = ''compiling''\<rparr>,
                                     \<lparr>LineNumber = 2, Timestamp = 6, StreamType = ''stdout'', Text = ''done''\<rparr>],
                         ExitCode = 0, Status = ''SUCCEEDED''\<rparr>,
                   Some \<lparr>Step = ''init'',
                         LogLines = [\<lparr>LineNumber = 1, Timestamp = 1000, StreamType = ''stderr'',
                                      Text = ''cannot connect to the docker daemon''\<rparr>,
                                     \<lparr>LineNumber = 2, Timestamp = 1001, StreamType = ''stderr'',
                                      Text = ''Error starting docker daemon''\<rparr>],
                         ExitCode = -1, Status = ''FAILED''\<rparr>]\<rparr>),
           PostLogs ''http://logs''
             (BuildLogBody
               \<lparr>LogID = ''1'', LogRepoSource = ''github.com'', LogRepoOwner = ''ziplineeci'',
                LogRepoName = ''ziplinee-ci-builder'',
                LogSteps =
                  [Some \<lparr>Step = ''build'',
                         LogLines = [\<lparr>LineNumber = 1, Timestamp = 5, StreamType = ''stdout'', Text = truncatedLogsText\<rparr>],
                         ExitCode = 0, Status = ''SUCCEEDED''\<rparr>,
                   Some \<lparr>Step = ''init'',
                         LogLines = [\<lparr>LineNumber = 1, Timestamp = 1000, StreamType = ''stderr'',
                                      Text = ''cannot connect to the docker daemon''\<rparr>,
                                     \<lparr>LineNumber = 2, Timestamp = 1001, StreamType = ''stderr'',
                                      Text = ''Error starting docker daemon''\<rparr>],
                         ExitCode = -1, Status = ''FAILED''\<rparr>]\<rparr>),
           PostEvent ''http://events''
             \<lparr>EventType = BuildEventTypeClean, EventJobType = JobTypeBuild,
              EventJobName = ''job'', EventPodName = ''pod'', EventStatus = ''FAILED''\<rparr>]
     \<and> heap w' =
          [\<lparr>Step = ''build'',
            LogLines = [\<lparr>LineNumber = 1, Timestamp = 5, StreamType = ''stdout'', Text = truncatedLogsText\<rparr>],
            ExitCode = 0, Status = ''SUCCEEDED''\<rparr>,
           \<lparr>Step = ''init'',
            LogLines = [\<lparr>LineNumber = 1, Timestamp = 1000, StreamType = ''stderr'',
                         Text = ''cannot connect to the docker daemon''\<rparr>,
                        \<lparr>LineNumber = 2, Timestamp = 1001, StreamType = ''stderr'',
                         Text = ''Error starting docker daemon''\<rparr>],
            ExitCode = -1, Status = ''FAILED''\<rparr>]"
proof -
  let ?X = "\<lparr>clientDo = (\<lambda>n. n \<noteq> 1), NewRequestOK = (\<lambda>u. True), Now = (\<lambda>n. 1000 + int n),
        LogStatusSucceeded = ''SUCCEEDED'', LogStatusFailed = ''FAILED'', ToStatus = (\<lambda>s. s)\<rparr>"
  let ?ci = "\<lparr>BuilderEventsURL = ''http://events'', PostLogsURL = ''http://logs'',
                                   CancelJobURL = ''http://cancel'', JWT = ''jwt'', JWTExpiry = 0\<rparr>"
  let ?elh = "\<lparr>runAsJob = True,
        config = \<lparr>JobType = JobTypeBuild, JobName = Some ''job'', CIServer = Some ?ci,
                  ReleaseID = None, BotID = None, Manifest = None\<rparr>,
        podName = ''pod''\<rparr>"
  let ?w = "\<lparr>heap = [\<lparr>Step = ''build'',
                 LogLines = [\<lparr>LineNumber = 1, Timestamp = 5, StreamType = ''stdout'', Text = ''compiling''\<rparr>,
                             \<lparr>LineNumber = 2, Timestamp = 6, StreamType = ''stdout'', Text = ''done''\<rparr>],
                 ExitCode = 0, Status = ''SUCCEEDED''\<rparr>],
        requests = [], clockReads = 0\<rparr>"
  let ?bl = "\<lparr>ID = ''1'', RepoSource = ''github.com'', RepoOwner = ''ziplineeci'', RepoName = ''ziplinee-ci-builder'',
        Steps = [0]\<rparr>"
  have c: "CIServer (config ?elh) = Some ?ci" and j: "JobName (config ?elh) = Some ''job''"
    and r: "JobType (config ?elh) = JobTypeRelease \<longrightarrow> ReleaseID (config ?elh) \<noteq> None"
    and b: "JobType (config ?elh) = JobTypeBot \<longrightarrow> BotID (config ?elh) \<noteq> None"
    and v: "\<forall>p \<in> set (Steps ?bl). p < length (heap ?w)"
    by simp_all
  from HandleFatal_init_step_then_events[where X = ?X
      and err = "Some ''cannot connect to the docker daemon''"
      and message = "''Error starting docker daemon''", OF c j r b v]
  show ?thesis
    by (clarsimp simp: logBodyFor_def marshal_def lifecyclePost_def initStepLines_def slimOf_def)
qed

end
